theory Spec2Isabelle
  imports Main "HOL-Library.Log_Nat" "HOL-Library.Code_Target_Nat"
begin

section \<open>JavaScript numbers\<close>

text \<open>
  A JavaScript number is an IEEE 754 binary64 value. The finite non-zero values and
  positive zero are \<open>Fin q\<close> with \<open>q\<close> the rational the double denotes; negative zero,
  the two infinities and NaN are constructors of their own. Every arithmetic operation
  computes the exact rational result and rounds it with \<open>fl_round\<close> (round to nearest,
  ties to even, overflow to infinity, gradual underflow), as the hardware does.
\<close>

datatype jsnum = Fin rat | NZero | PInf | NInf | NaN

definition pow2 :: "int \<Rightarrow> rat" where
  "pow2 e = (if 0 \<le> e then 2 ^ nat e else 1 / 2 ^ nat (- e))"

text \<open>\<open>ilog2 a\<close> is the exponent \<open>e\<close> with \<open>2^e \<le> a < 2^(e+1)\<close>, for \<open>a > 0\<close>.\<close>

definition ilog2 :: "rat \<Rightarrow> int" where
  "ilog2 a = (let (n, d) = quotient_of a; k = bitlen n - bitlen d
              in if pow2 k \<le> a then k else k - 1)"

definition round_half_even :: "rat \<Rightarrow> int" where
  "round_half_even q =
     (let f = \<lfloor>q\<rfloor>; d = q - of_int f
      in if d < 1 / 2 then f else if 1 / 2 < d then f + 1
         else if even f then f else f + 1)"

definition js_zero :: "bool \<Rightarrow> jsnum" where
  "js_zero neg = (if neg then NZero else Fin 0)"

definition js_inf :: "bool \<Rightarrow> jsnum" where
  "js_inf neg = (if neg then NInf else PInf)"

text \<open>
  \<open>fl_round neg a\<close> rounds the magnitude \<open>a \<ge> 0\<close> to binary64 (53 significant bits,
  least exponent -1022, subnormals below) and attaches the sign. The significand \<open>m\<close>
  counts units \<open>u\<close> of the last place; the result overflows when it reaches \<open>2^1024\<close>,
  that is when the exponent is 1024 or more, or is 1023 with \<open>m\<close> rounded up to \<open>2^53\<close>.
\<close>

definition fl_round :: "bool \<Rightarrow> rat \<Rightarrow> jsnum" where
  "fl_round neg a =
     (if a = 0 then js_zero neg
      else let e0 = ilog2 a
           in if 1024 \<le> e0 then js_inf neg
              else let e = max e0 (- 1022);
                       u = pow2 (e - 52);
                       m = round_half_even (a / u)
                   in if m = 0 then js_zero neg
                      else if e = 1023 \<and> m = 9007199254740992 then js_inf neg
                      else Fin (if neg then - (of_int m * u) else of_int m * u))"

text \<open>A decimal literal of the source denotes the double nearest to it.\<close>

definition js_lit :: "rat \<Rightarrow> jsnum" where
  "js_lit q = fl_round (q < 0) \<bar>q\<bar>"

definition js_of_nat :: "nat \<Rightarrow> jsnum" where
  "js_of_nat n = Fin (of_nat n)"

fun is_neg :: "jsnum \<Rightarrow> bool" where
  "is_neg (Fin q) = (q < 0)"
| "is_neg NZero = True"
| "is_neg NInf = True"
| "is_neg PInf = False"
| "is_neg NaN = False"

fun is_zero :: "jsnum \<Rightarrow> bool" where
  "is_zero (Fin q) = (q = 0)"
| "is_zero NZero = True"
| "is_zero _ = False"

fun is_inf :: "jsnum \<Rightarrow> bool" where
  "is_inf PInf = True"
| "is_inf NInf = True"
| "is_inf _ = False"

text \<open>The rational a finite number denotes (both zeros denote 0).\<close>

fun val :: "jsnum \<Rightarrow> rat" where
  "val (Fin q) = q"
| "val _ = 0"

fun js_neg :: "jsnum \<Rightarrow> jsnum" where
  "js_neg (Fin q) = (if q = 0 then NZero else Fin (- q))"
| "js_neg NZero = Fin 0"
| "js_neg PInf = NInf"
| "js_neg NInf = PInf"
| "js_neg NaN = NaN"

definition js_add :: "jsnum \<Rightarrow> jsnum \<Rightarrow> jsnum" where
  "js_add x y =
     (if x = NaN \<or> y = NaN then NaN
      else if is_inf x \<and> is_inf y then (if x = y then x else NaN)
      else if is_inf x then x
      else if is_inf y then y
      else if x = NZero \<and> y = NZero then NZero
      else let s = val x + val y
           in if s = 0 then Fin 0 else fl_round (s < 0) \<bar>s\<bar>)"

definition js_sub :: "jsnum \<Rightarrow> jsnum \<Rightarrow> jsnum" where
  "js_sub x y = js_add x (js_neg y)"

definition js_mul :: "jsnum \<Rightarrow> jsnum \<Rightarrow> jsnum" where
  "js_mul x y =
     (if x = NaN \<or> y = NaN then NaN
      else if (is_inf x \<and> is_zero y) \<or> (is_zero x \<and> is_inf y) then NaN
      else if is_inf x \<or> is_inf y then js_inf (is_neg x \<noteq> is_neg y)
      else fl_round (is_neg x \<noteq> is_neg y) (\<bar>val x\<bar> * \<bar>val y\<bar>))"

definition js_div :: "jsnum \<Rightarrow> jsnum \<Rightarrow> jsnum" where
  "js_div x y =
     (if x = NaN \<or> y = NaN then NaN
      else if (is_inf x \<and> is_inf y) \<or> (is_zero x \<and> is_zero y) then NaN
      else if is_inf x \<or> is_zero y then js_inf (is_neg x \<noteq> is_neg y)
      else if is_inf y then js_zero (is_neg x \<noteq> is_neg y)
      else fl_round (is_neg x \<noteq> is_neg y) (\<bar>val x\<bar> / \<bar>val y\<bar>))"

text \<open>The relational operators: false whenever an operand is NaN; the zeros are equal.\<close>

fun js_lt :: "jsnum \<Rightarrow> jsnum \<Rightarrow> bool" where
  "js_lt NaN _ = False"
| "js_lt _ NaN = False"
| "js_lt PInf _ = False"
| "js_lt _ NInf = False"
| "js_lt NInf _ = True"
| "js_lt _ PInf = True"
| "js_lt x y = (val x < val y)"

definition js_gt :: "jsnum \<Rightarrow> jsnum \<Rightarrow> bool" where
  "js_gt x y = js_lt y x"

text \<open>\<open>Math.round\<close>: the nearest integer, ties towards positive infinity; the sign of
  zero is kept, and a negative argument that rounds to zero gives negative zero.\<close>

fun math_round :: "jsnum \<Rightarrow> jsnum" where
  "math_round (Fin q) =
     (let r = \<lfloor>q + 1 / 2\<rfloor> in if r = 0 \<and> q < 0 then NZero else Fin (of_int r))"
| "math_round x = x"

text \<open>\<open>Math.max\<close> of the arguments \<open>xs\<close>: starts from negative infinity, NaN is
  contagious, and positive zero counts as larger than negative zero.\<close>

fun math_max_from :: "jsnum \<Rightarrow> jsnum list \<Rightarrow> jsnum" where
  "math_max_from highest [] = highest"
| "math_max_from highest (x # xs) =
     (if x = NaN then NaN
      else if x = Fin 0 \<and> highest = NZero then math_max_from (Fin 0) xs
      else if js_gt x highest then math_max_from x xs
      else math_max_from highest xs)"

definition math_max :: "jsnum list \<Rightarrow> jsnum" where
  "math_max xs = math_max_from NInf xs"

text \<open>Truthiness of a number: false for the zeros and NaN.\<close>

definition num_truthy :: "jsnum \<Rightarrow> bool" where
  "num_truthy x = (\<not> is_zero x \<and> x \<noteq> NaN)"

section \<open>Strings and primitive values\<close>

text \<open>
  A string is a list of code units below 256, which is what the \<open>binary\<close> encoding of a
  buffer produces and what the fixed texts of the program need. \<open>toLowerCase\<close> maps the
  capital letters of that range, \<open>trim\<close> removes the white space of that range
  (tab, line feed, vertical tab, form feed, carriage return, space, no-break space).
\<close>

text \<open>
  The exceptions: the \<open>TypeError\<close> and the \<open>RangeError\<close> the engine throws, an \<open>Error\<close> with
  its message, and an error of the API client with its status and message.
\<close>

datatype js_error = TypeError | RangeError | Error string | APIError nat string

text \<open>
  The values a property can hold: the primitive values, arrays and plain objects (a list
  of keys with their values, as \<open>JSON.parse\<close> builds them).
\<close>

datatype jsval =
    Undefined | Null | Bool bool | Num jsnum | Str string
  | Arr "jsval list" | Obj "(string \<times> jsval) list"

text \<open>
  A pause statistic: the number 0 or the string \<open>toFixed(2)\<close> returns. \<open>LargeText q\<close> is
  the string that \<open>Number::toString\<close> gives for a finite \<open>q\<close> of magnitude at least
  \<open>10^21\<close> (exponent notation); its digits are not computed here.
\<close>

datatype stat = Number jsnum | Text string | LargeText rat

definition to_lower_char :: "char \<Rightarrow> char" where
  "to_lower_char c =
     (let n = (of_char c :: nat)
      in if (65 \<le> n \<and> n \<le> 90) \<or> (192 \<le> n \<and> n \<le> 222 \<and> n \<noteq> 215)
         then char_of (n + 32) else c)"

definition toLowerCase :: "string \<Rightarrow> string" where
  "toLowerCase s = map to_lower_char s"

definition is_ws :: "char \<Rightarrow> bool" where
  "is_ws c = ((of_char c :: nat) \<in> {9, 10, 11, 12, 13, 32, 160})"

definition trimStart :: "string \<Rightarrow> string" where
  "trimStart s = dropWhile is_ws s"

definition trim :: "string \<Rightarrow> string" where
  "trim s = rev (dropWhile is_ws (rev (dropWhile is_ws s)))"

definition digit_char :: "nat \<Rightarrow> char" where
  "digit_char d = char_of (48 + d)"

fun digits_of :: "nat \<Rightarrow> string" where
  "digits_of n = (if n < 10 then [digit_char n] else digits_of (n div 10) @ [digit_char (n mod 10)])"

declare digits_of.simps [simp del]

text \<open>
  \<open>x.toFixed(2)\<close>: the non-finite values print by name; a magnitude of \<open>10^21\<close> or more
  prints as \<open>Number::toString\<close> does; otherwise the integer \<open>n\<close> nearest to \<open>100 * |x|\<close>
  (the larger one on a tie) is printed with a point before its last two digits, after
  a minus sign when \<open>x < 0\<close>.
\<close>

fun toFixed2 :: "jsnum \<Rightarrow> stat" where
  "toFixed2 NaN = Text ''NaN''"
| "toFixed2 PInf = Text ''Infinity''"
| "toFixed2 NInf = Text ''-Infinity''"
| "toFixed2 NZero = Text ''0.00''"
| "toFixed2 (Fin q) =
     (if 1000000000000000000000 \<le> \<bar>q\<bar> then LargeText q
      else let n = nat \<lfloor>\<bar>q\<bar> * 100 + 1 / 2\<rfloor>;
               m = digits_of n;
               m' = replicate (3 - length m) (CHR ''0'') @ m;
               k = length m'
           in Text ((if q < 0 then ''-'' else []) @ take (k - 2) m' @ ''.'' @ drop (k - 2) m'))"

section \<open>The speech metrics analyzer\<close>

text \<open>
  A recognised word as the transcription collaborator delivers it: \<open>word\<close> is the text
  (any value, so that a missing or non-string text can be written), \<open>start\<close>
  and \<open>end_t\<close> are the time stamps, \<open>None\<close> when the property is missing.
\<close>

record TimedWord =
  word :: jsval
  start :: "jsnum option"
  end_t :: "jsnum option"

text \<open>\<open>ToNumber\<close> of a property that holds a number or is missing (\<open>undefined\<close>).\<close>

fun to_number :: "jsnum option \<Rightarrow> jsnum" where
  "to_number None = NaN"
| "to_number (Some x) = x"

text \<open>
  The object \<open>analyzeMetrics\<close> returns. \<open>pauseCount\<close> is \<open>None\<close> when the returned object
  has no such property. The two pause statistics hold the number 0 or the string that
  \<open>toFixed(2)\<close> returns.
\<close>

record SpeechMetrics =
  wordsPerMinute :: jsnum
  averagePauseDuration :: stat
  longestPause :: stat
  fillerWordCount :: nat
  pauseCount :: "nat option"
  pacingVariation :: string

definition fillerWords :: "string list" where
  "fillerWords = [''um'', ''uh'', ''like'', ''you know'', ''so'', ''basically'', ''actually'', ''literally'']"

text \<open>
  The \<open>forEach\<close> that counts filler words. \<open>word.word.toLowerCase()\<close> throws a
  \<open>TypeError\<close> unless the text is a string.
\<close>

fun count_fillers :: "TimedWord list \<Rightarrow> nat \<Rightarrow> js_error + nat" where
  "count_fillers [] fillerCount = Inr fillerCount"
| "count_fillers (w # ws) fillerCount =
     (case word w of
        Str s \<Rightarrow>
          (let wordText = trim (toLowerCase s)
           in count_fillers ws (if wordText \<in> set fillerWords then fillerCount + 1 else fillerCount))
      | _ \<Rightarrow> Inl TypeError)"

text \<open>The loop \<open>for (let i = 1; i < words.length; i++)\<close> that collects the pauses.\<close>

function pause_loop :: "TimedWord list \<Rightarrow> nat \<Rightarrow> jsnum list \<Rightarrow> jsnum list" where
  "pause_loop words i pauses =
     (if i < length words then
        (let pause = js_sub (to_number (start (words ! i))) (to_number (end_t (words ! (i - 1))))
         in pause_loop words (i + 1) (if js_gt pause (js_lit (1 / 5)) then pauses @ [pause] else pauses))
      else pauses)"
  by pat_completeness auto
termination
  by (relation "measure (\<lambda>(words, i, pauses). length words - i)") auto

declare pause_loop.simps [simp del]

definition classify_pacing :: "nat \<Rightarrow> nat \<Rightarrow> jsnum \<Rightarrow> string" where
  "classify_pacing npauses nwords wpm =
     (if js_gt (js_of_nat npauses) (js_mul (js_of_nat nwords) (js_lit (3 / 10))) then ''halting''
      else if js_lt (js_of_nat npauses) (js_mul (js_of_nat nwords) (js_lit (1 / 10)))
              \<and> js_gt wpm (Fin 150) then ''rushed''
      else ''steady'')"

text \<open>
  \<open>Math.max(...xs)\<close>: the spread makes every element of \<open>xs\<close> an argument of one call.
  The engine puts the arguments on its stack and throws a \<open>RangeError\<close> when they are
  more than it can take; \<open>max_arguments\<close> is the largest number of arguments it takes in
  this call (it depends on the engine and on the stack that is left).
\<close>

definition math_max_spread :: "nat \<Rightarrow> jsnum list \<Rightarrow> js_error + jsnum" where
  "math_max_spread max_arguments xs =
     (if max_arguments < length xs then Inl RangeError else Inr (math_max xs))"

text \<open>
  \<open>analyzeMetrics(words, duration)\<close>, run by an engine that takes \<open>max_arguments\<close>
  arguments in a call. \<open>words\<close> is \<open>None\<close> for an absent (null or undefined) sequence,
  \<open>duration\<close> is \<open>None\<close> for an absent duration. The properties of the returned object are
  evaluated in the order they are written, so the call of \<open>Math.max\<close> is the last step
  that can throw.
\<close>

definition analyzeMetrics :: "nat \<Rightarrow> TimedWord list option \<Rightarrow> jsnum option \<Rightarrow> js_error + SpeechMetrics" where
  "analyzeMetrics max_arguments words_opt duration =
     (case words_opt of
        None \<Rightarrow>
          Inr \<lparr> wordsPerMinute = Fin 0, averagePauseDuration = Number (Fin 0), longestPause = Number (Fin 0),
                fillerWordCount = 0, pauseCount = None, pacingVariation = ''unknown'' \<rparr>
      | Some words \<Rightarrow>
          if length words = 0 then
            Inr \<lparr> wordsPerMinute = Fin 0, averagePauseDuration = Number (Fin 0), longestPause = Number (Fin 0),
                  fillerWordCount = 0, pauseCount = None, pacingVariation = ''unknown'' \<rparr>
          else
            (case count_fillers words 0 of
               Inl e \<Rightarrow> Inl e
             | Inr fillerCount \<Rightarrow>
                 (let pauses = pause_loop words 1 [];
                      wpm = math_round (js_mul (js_div (js_of_nat (length words)) (to_number duration)) (Fin 60));
                      pacing = classify_pacing (length pauses) (length words) wpm;
                      average =
                        (if length pauses > 0
                         then toFixed2 (js_div (foldl js_add (Fin 0) pauses) (js_of_nat (length pauses)))
                         else Number (Fin 0))
                  in case (if length pauses > 0
                           then map_sum id toFixed2 (math_max_spread max_arguments pauses)
                           else Inr (Number (Fin 0))) of
                       Inl e \<Rightarrow> Inl e
                     | Inr longest \<Rightarrow>
                         Inr \<lparr> wordsPerMinute = wpm,
                               averagePauseDuration = average,
                               longestPause = longest,
                               fillerWordCount = fillerCount,
                               pauseCount = Some (length pauses),
                               pacingVariation = pacing \<rparr>)))"

section \<open>String searching\<close>

definition dquote :: char where
  "dquote = CHR 0x22"

definition crlf :: string where
  "crlf = [CHR 0x0D, CHR 0x0A]"

definition starts_with :: "string \<Rightarrow> string \<Rightarrow> bool" where
  "starts_with s p = (take (length p) s = p)"

text \<open>\<open>s.indexOf(p)\<close>: the first index at which \<open>p\<close> occurs in \<open>s\<close>, or -1.\<close>

fun index_from :: "string \<Rightarrow> string \<Rightarrow> nat \<Rightarrow> int" where
  "index_from p [] i = (if p = [] then int i else - 1)"
| "index_from p (c # cs) i = (if starts_with (c # cs) p then int i else index_from p cs (i + 1))"

definition indexOf :: "string \<Rightarrow> string \<Rightarrow> int" where
  "indexOf s p = index_from p s 0"

text \<open>\<open>s.lastIndexOf(p)\<close>: the last index at which \<open>p\<close> occurs in \<open>s\<close>, or -1.\<close>

fun last_index_from :: "string \<Rightarrow> string \<Rightarrow> nat \<Rightarrow> int" where
  "last_index_from p [] i = (if p = [] then int i else - 1)"
| "last_index_from p (c # cs) i =
     (let later = last_index_from p cs (i + 1)
      in if later \<noteq> - 1 then later else if starts_with (c # cs) p then int i else - 1)"

definition lastIndexOf :: "string \<Rightarrow> string \<Rightarrow> int" where
  "lastIndexOf s p = last_index_from p s 0"

definition includes_str :: "string \<Rightarrow> string \<Rightarrow> bool" where
  "includes_str s p = (indexOf s p \<noteq> - 1)"

text \<open>\<open>s.substring(a, b)\<close>: both indices are clamped to \<open>0 .. s.length\<close> and swapped when
  the first is the larger.\<close>

definition substring :: "string \<Rightarrow> int \<Rightarrow> int \<Rightarrow> string" where
  "substring s a b =
     (let n = int (length s);
          a' = min (max a 0) n;
          b' = min (max b 0) n;
          lo = min a' b';
          hi = max a' b'
      in take (nat (hi - lo)) (drop (nat lo) s))"

text \<open>\<open>s.split(sep)\<close>: the pieces between the occurrences of \<open>sep\<close>, found from the left
  without overlap; \<open>acc\<close> holds the current piece in reverse. An empty separator splits
  into single code units.\<close>

function split_from :: "string \<Rightarrow> string \<Rightarrow> string \<Rightarrow> string list" where
  "split_from sep acc [] = [rev acc]"
| "split_from sep acc (c # cs) =
     (if sep \<noteq> [] \<and> starts_with (c # cs) sep
      then rev acc # split_from sep [] (drop (length sep) (c # cs))
      else split_from sep (c # acc) cs)"
  by pat_completeness auto
termination
  by (relation "measure (\<lambda>(sep, acc, s). length s)") auto

definition split :: "string \<Rightarrow> string \<Rightarrow> string list" where
  "split s sep = (if sep = [] then map (\<lambda>c. [c]) s else split_from sep [] s)"

text \<open>
  The first match of the regular expression \<open>/key="([^"]+)"/\<close> in \<open>s\<close>, for a literal
  \<open>key\<close>: at the leftmost position where \<open>key="\<close> is followed by a non-empty run of
  code units other than the double quote and then by a double quote, the run is the
  captured group.
\<close>

fun match_param :: "string \<Rightarrow> string \<Rightarrow> string option" where
  "match_param key [] = None"
| "match_param key (c # cs) =
     (let pre = key @ [CHR ''='', dquote]
      in if starts_with (c # cs) pre then
           (let rest = drop (length pre) (c # cs);
                run = takeWhile (\<lambda>x. x \<noteq> dquote) rest
            in if run \<noteq> [] \<and> length run < length rest then Some run
               else match_param key cs)
         else match_param key cs)"

section \<open>The multipart decoder\<close>

record upload =
  filename :: string
  data :: string

text \<open>The object \<open>{ fields: {}, files: {} }\<close> the decoder fills.\<close>

record parsed_form =
  form_fields :: "string \<rightharpoonup> string"
  form_files :: "string \<rightharpoonup> upload"

text \<open>
  \<open>obj[name] = value\<close> on a plain object: the property is created or overwritten, except
  for the name \<open>__proto__\<close>, whose assignment creates no property.
\<close>

definition set_prop :: "(string \<rightharpoonup> 'a) \<Rightarrow> string \<Rightarrow> 'a \<Rightarrow> (string \<rightharpoonup> 'a)" where
  "set_prop obj name v = (if name = ''__proto__'' then obj else obj(name \<mapsto> v))"

text \<open>The body of the loop over the parts.\<close>

definition process_part :: "parsed_form \<Rightarrow> string \<Rightarrow> parsed_form" where
  "process_part result part =
     (if includes_str part ''Content-Disposition'' then
        (case match_param ''name'' part of
           None \<Rightarrow> result
         | Some name \<Rightarrow>
             (let contentStart = indexOf part (crlf @ crlf) + 4;
                  contentEnd = lastIndexOf part crlf;
                  content = substring part contentStart contentEnd
              in case match_param ''filename'' part of
                   Some fname \<Rightarrow>
                     result\<lparr> form_files := set_prop (form_files result) name \<lparr> filename = fname, data = content \<rparr> \<rparr>
                 | None \<Rightarrow>
                     result\<lparr> form_fields := set_prop (form_fields result) name content \<rparr>))
      else result)"

text \<open>\<open>req.headers['content-type']?.split('boundary=')[1]\<close>, \<open>None\<close> when it is undefined
  or the empty string (both fail the test \<open>!boundary\<close>).\<close>

definition boundary_of :: "string option \<Rightarrow> string option" where
  "boundary_of content_type =
     (case content_type of
        None \<Rightarrow> None
      | Some h \<Rightarrow>
          (case split h ''boundary='' of
             _ # b # _ \<Rightarrow> if b = [] then None else Some b
           | _ \<Rightarrow> None))"

text \<open>
  \<open>parseMultipartForm(req)\<close>, for a request whose body has arrived: \<open>body\<close> is the
  concatenation of the chunks read as a \<open>binary\<close> string, one code unit per byte, and
  \<open>Buffer.from(content, 'binary')\<close> gives these bytes back. The promise is rejected when
  no boundary is found.
\<close>

definition parseMultipartForm :: "string option \<Rightarrow> string \<Rightarrow> js_error + parsed_form" where
  "parseMultipartForm content_type body =
     (case boundary_of content_type of
        None \<Rightarrow> Inl (Error ''No boundary found'')
      | Some boundary \<Rightarrow>
          Inr (foldl process_part \<lparr> form_fields = Map.empty, form_files = Map.empty \<rparr>
                 (split body (''--'' @ boundary))))"

section \<open>Reading a number from a form field\<close>

definition is_digit :: "char \<Rightarrow> bool" where
  "is_digit c = (48 \<le> (of_char c :: nat) \<and> (of_char c :: nat) \<le> 57)"

definition digits_value :: "string \<Rightarrow> nat" where
  "digits_value ds = foldl (\<lambda>a c. 10 * a + ((of_char c :: nat) - 48)) 0 ds"

definition pow10 :: "int \<Rightarrow> rat" where
  "pow10 e = (if 0 \<le> e then 10 ^ nat e else 1 / 10 ^ nat (- e))"

text \<open>The exponent part \<open>e\<close> or \<open>E\<close>, an optional sign and at least one digit; 0 when the
  text does not start with a complete exponent part.\<close>

definition exponent_part :: "string \<Rightarrow> int" where
  "exponent_part s =
     (case s of
        [] \<Rightarrow> 0
      | c # r \<Rightarrow>
          if c = CHR ''e'' \<or> c = CHR ''E'' then
            (let neg = (r \<noteq> [] \<and> hd r = CHR ''-'');
                 d = (if r \<noteq> [] \<and> (hd r = CHR ''-'' \<or> hd r = CHR ''+'') then tl r else r);
                 ds = takeWhile is_digit d
             in if ds = [] then 0
                else if neg then - int (digits_value ds) else int (digits_value ds))
          else 0)"

text \<open>
  \<open>parseFloat(s)\<close>: leading white space is skipped, then the longest prefix that is a
  decimal literal is read (an optional sign, then \<open>Infinity\<close>, or digits with an optional
  fraction and exponent, or a fraction that starts with the point); the result is the
  double nearest to its value, and NaN when there is no such prefix.
\<close>

definition parseFloat :: "string \<Rightarrow> jsnum" where
  "parseFloat s =
     (let t = trimStart s;
          neg = (t \<noteq> [] \<and> hd t = CHR ''-'');
          u = (if t \<noteq> [] \<and> (hd t = CHR ''-'' \<or> hd t = CHR ''+'') then tl t else t)
      in if starts_with u ''Infinity'' then js_inf neg
         else
           (let ip = takeWhile is_digit u;
                r1 = dropWhile is_digit u;
                has_point = (r1 \<noteq> [] \<and> hd r1 = CHR ''.'');
                fp = (if has_point then takeWhile is_digit (tl r1) else []);
                r2 = (if has_point then dropWhile is_digit (tl r1) else r1)
            in if ip = [] \<and> fp = [] then NaN
               else fl_round neg
                      (of_nat (digits_value (ip @ fp)) * pow10 (exponent_part r2 - int (length fp)))))"

section \<open>The request handler\<close>

text \<open>
  What the transcription collaborator returns: \<open>text\<close>, \<open>words\<close> and \<open>duration\<close>, the
  last two \<open>None\<close> when the property is missing.
\<close>

record transcription =
  t_text :: string
  t_words :: "TimedWord list option"
  t_duration :: "jsnum option"

text \<open>
  The data that goes into the user message of the text-generation call: for an audio
  request the part, the question, the metrics, the number of words, the duration and the
  transcript; for a text request the part, the question and the trimmed text.
\<close>

datatype chat_request =
    AudioPrompt string string SpeechMetrics nat jsnum string
  | TextPrompt jsval jsval string

text \<open>
  The environment of a request: whether \<open>OPENAI_API_KEY\<close> is set, the number of
  arguments the engine takes in a call, the two collaborators
  (each returns or throws) and \<open>JSON.parse\<close> (\<open>None\<close> when it throws). The text-generation
  collaborator is represented by the value of
  \<open>completion.choices?.[0]?.message?.content\<close>, \<open>Undefined\<close> when a link is missing.
\<close>

record env =
  api_key_set :: bool
  max_arguments :: nat
  transcribe :: "upload \<Rightarrow> js_error + transcription"
  chat :: "chat_request \<Rightarrow> js_error + jsval"
  json_parse :: "string \<Rightarrow> jsval option"

text \<open>
  The request: its method, its \<open>content-type\<close> header, the bytes of its body (read by
  the multipart decoder) and the three properties the text branch takes from
  \<open>req.body || {}\<close>, \<open>Undefined\<close> when missing.
\<close>

record request =
  req_method :: string
  content_type :: "string option"
  raw_body :: string
  body_text :: jsval
  body_question :: jsval
  body_part :: jsval

text \<open>\<open>error.message\<close>: a given text, or the text the engine gives its own error.\<close>

datatype message = Message string | TypeErrorMessage | RangeErrorMessage

record error_body =
  err_error :: string
  err_details :: "message option"
  err_status :: "nat option"

record feedback_result =
  ieltsScores :: jsval
  transcript :: string
  metrics :: "SpeechMetrics option"
  question :: jsval
  part :: jsval

datatype response_body = NoBody | ErrorBody error_body | ResultBody feedback_result

record response =
  res_status :: nat
  res_headers :: "(string \<times> string) list"
  res_body :: response_body

definition cors_headers :: "(string \<times> string) list" where
  "cors_headers =
     [(''Access-Control-Allow-Credentials'', ''true''),
      (''Access-Control-Allow-Origin'', ''*''),
      (''Access-Control-Allow-Methods'', ''POST, OPTIONS''),
      (''Access-Control-Allow-Headers'', ''Content-Type'')]"

text \<open>The document that replaces a completion that does not parse.\<close>

definition fallback_scores :: jsval where
  "fallback_scores =
     Obj [(''overallBand'', Num (Fin 0)),
          (''scores'', Obj [(''fluencyCoherence'', Num (Fin 0)),
                            (''lexicalResource'', Num (Fin 0)),
                            (''grammaticalRange'', Num (Fin 0)),
                            (''pronunciation'', Num (Fin 0))]),
          (''feedback'', Obj [(''summary'', Str ''Unable to analyze response. Please try again.''),
                              (''error'', Bool True)])]"

fun truthy :: "jsval \<Rightarrow> bool" where
  "truthy Undefined = False"
| "truthy Null = False"
| "truthy (Bool b) = b"
| "truthy (Num x) = num_truthy x"
| "truthy (Str s) = (s \<noteq> [])"
| "truthy (Arr xs) = True"
| "truthy (Obj kvs) = True"

text \<open>\<open>fields.name || fallback\<close> for a form field (a string, or undefined).\<close>

definition field_or :: "string option \<Rightarrow> string \<Rightarrow> string" where
  "field_or v fallback = (case v of None \<Rightarrow> fallback | Some s \<Rightarrow> if s = [] then fallback else s)"

text \<open>\<open>v || fallback\<close> for a property of the JSON body.\<close>

definition value_or :: "jsval \<Rightarrow> string \<Rightarrow> jsval" where
  "value_or v fallback = (if truthy v then v else Str fallback)"

text \<open>
  \<open>fields.duration ? parseFloat(fields.duration) : transcription.duration || 0\<close>: the
  conditional binds weaker than \<open>||\<close>, so \<open>transcription.duration || 0\<close> is its third
  operand; a field is falsy when it is missing or the empty string.
\<close>

definition reported_or_zero :: "jsnum option \<Rightarrow> jsnum" where
  "reported_or_zero reported =
     (case reported of None \<Rightarrow> Fin 0 | Some d \<Rightarrow> if num_truthy d then d else Fin 0)"

definition audio_duration :: "string option \<Rightarrow> jsnum option \<Rightarrow> jsnum" where
  "audio_duration field reported =
     (case field of
        None \<Rightarrow> reported_or_zero reported
      | Some s \<Rightarrow> if s = [] then reported_or_zero reported else parseFloat s)"

text \<open>
  \<open>content?.trim() || '{}'\<close>: a missing or null content and a blank string give the text
  \<open>{}\<close>; any other value that is not a string has no \<open>trim\<close> method, and the call throws.
\<close>

definition response_content :: "jsval \<Rightarrow> js_error + string" where
  "response_content content =
     (case content of
        Undefined \<Rightarrow> Inr ''{}''
      | Null \<Rightarrow> Inr ''{}''
      | Str s \<Rightarrow> Inr (if trim s = [] then ''{}'' else trim s)
      | _ \<Rightarrow> Inl TypeError)"

text \<open>The \<open>try\<close>/\<open>catch\<close> around \<open>JSON.parse\<close>.\<close>

definition parse_scores :: "env \<Rightarrow> string \<Rightarrow> jsval" where
  "parse_scores e responseContent =
     (case json_parse e responseContent of
        Some ieltsResult \<Rightarrow> ieltsResult
      | None \<Rightarrow> fallback_scores)"

definition message_of :: "js_error \<Rightarrow> message" where
  "message_of e =
     (case e of TypeError \<Rightarrow> TypeErrorMessage | RangeError \<Rightarrow> RangeErrorMessage | Error m \<Rightarrow> Message m | APIError st m \<Rightarrow> Message m)"

text \<open>The outer \<open>catch\<close> block. An error with a truthy \<open>status\<close> is an API error.\<close>

definition error_response :: "env \<Rightarrow> js_error \<Rightarrow> response" where
  "error_response e err =
     (case err of
        APIError st m \<Rightarrow>
          if st \<noteq> 0 then
            \<lparr> res_status = st, res_headers = cors_headers,
              res_body = ErrorBody \<lparr> err_error = ''OpenAI API error'', err_details = Some (Message m),
                                     err_status = Some st \<rparr> \<rparr>
          else if \<not> api_key_set e then
            \<lparr> res_status = 500, res_headers = cors_headers,
              res_body = ErrorBody \<lparr> err_error = ''OpenAI API key not configured'',
                                     err_details = Some (Message ''OPENAI_API_KEY environment variable is missing''),
                                     err_status = None \<rparr> \<rparr>
          else
            \<lparr> res_status = 500, res_headers = cors_headers,
              res_body = ErrorBody \<lparr> err_error = ''Failed to generate feedback'',
                                     err_details = Some (message_of err), err_status = None \<rparr> \<rparr>
      | _ \<Rightarrow>
          if \<not> api_key_set e then
            \<lparr> res_status = 500, res_headers = cors_headers,
              res_body = ErrorBody \<lparr> err_error = ''OpenAI API key not configured'',
                                     err_details = Some (Message ''OPENAI_API_KEY environment variable is missing''),
                                     err_status = None \<rparr> \<rparr>
          else
            \<lparr> res_status = 500, res_headers = cors_headers,
              res_body = ErrorBody \<lparr> err_error = ''Failed to generate feedback'',
                                     err_details = Some (message_of err), err_status = None \<rparr> \<rparr>)"

text \<open>
  Both branches of the \<open>try\<close> block end with the same steps: the text-generation call,
  the reading of its content, \<open>JSON.parse\<close> with its fallback, and the response with
  status 200. A branch that reaches these steps hands them the user message data and the
  fields of the result that it has computed.
\<close>

record dispatched =
  d_prompt :: chat_request
  d_transcript :: string
  d_metrics :: "SpeechMetrics option"
  d_question :: jsval
  d_part :: jsval

text \<open>
  The audio branch up to the text-generation call. \<open>Inl\<close> is an exception on its way to
  the \<open>catch\<close> block, \<open>Inr (Inl r)\<close> the early response \<open>r\<close>, \<open>Inr (Inr d)\<close> a request
  that reaches the call.
\<close>

definition prepare_audio :: "env \<Rightarrow> request \<Rightarrow> js_error + response + dispatched" where
  "prepare_audio e req =
     (case parseMultipartForm (content_type req) (raw_body req) of
        Inl err \<Rightarrow> Inl err
      | Inr form \<Rightarrow>
          (case form_files form ''audio'' of
             None \<Rightarrow>
               Inr (Inl \<lparr> res_status = 400, res_headers = cors_headers,
                          res_body = ErrorBody \<lparr> err_error = ''No audio file provided'',
                                                 err_details = None, err_status = None \<rparr> \<rparr>)
           | Some audioFile \<Rightarrow>
               (case transcribe e audioFile of
                  Inl err \<Rightarrow> Inl err
                | Inr transcription \<Rightarrow>
                    (let words = (case t_words transcription of None \<Rightarrow> [] | Some ws \<Rightarrow> ws);
                         duration = audio_duration (form_fields form ''duration'') (t_duration transcription)
                     in case analyzeMetrics (max_arguments e) (Some words) (Some duration) of
                          Inl err \<Rightarrow> Inl err
                        | Inr m \<Rightarrow>
                            (let q = field_or (form_fields form ''question'') ''IELTS Speaking Question'';
                                 p = field_or (form_fields form ''part'') ''1''
                             in Inr (Inr \<lparr> d_prompt = AudioPrompt p q m (length words) duration (t_text transcription),
                                           d_transcript = t_text transcription,
                                           d_metrics = Some m,
                                           d_question = Str q,
                                           d_part = Str p \<rparr>))))))"

text \<open>The text branch up to the text-generation call: the test
  \<open>!text || typeof text !== 'string' || !text.trim()\<close> and the data of the call.\<close>

definition prepare_text :: "env \<Rightarrow> request \<Rightarrow> js_error + response + dispatched" where
  "prepare_text e req =
     (case body_text req of
        Str t \<Rightarrow>
          if t = [] \<or> trim t = [] then
            Inr (Inl \<lparr> res_status = 400, res_headers = cors_headers,
                       res_body = ErrorBody \<lparr> err_error = ''Missing transcript text or audio file'',
                                              err_details = None, err_status = None \<rparr> \<rparr>)
          else
            Inr (Inr \<lparr> d_prompt = TextPrompt (value_or (body_part req) ''1'')
                                              (value_or (body_question req) ''General IELTS Question'') (trim t),
                       d_transcript = trim t,
                       d_metrics = None,
                       d_question = value_or (body_question req) ''General IELTS Question'',
                       d_part = value_or (body_part req) ''1'' \<rparr>)
      | _ \<Rightarrow>
          Inr (Inl \<lparr> res_status = 400, res_headers = cors_headers,
                     res_body = ErrorBody \<lparr> err_error = ''Missing transcript text or audio file'',
                                            err_details = None, err_status = None \<rparr> \<rparr>))"

text \<open>The branch taken: \<open>contentType.includes('multipart/form-data')\<close> with
  \<open>contentType = req.headers['content-type'] || ''\<close>.\<close>

definition prepare :: "env \<Rightarrow> request \<Rightarrow> js_error + response + dispatched" where
  "prepare e req =
     (let contentType = (case content_type req of None \<Rightarrow> [] | Some h \<Rightarrow> h)
      in if includes_str contentType ''multipart/form-data''
         then prepare_audio e req else prepare_text e req)"

text \<open>The steps from the text-generation call to the response.\<close>

definition complete :: "env \<Rightarrow> dispatched \<Rightarrow> js_error + response" where
  "complete e d =
     (case chat e (d_prompt d) of
        Inl err \<Rightarrow> Inl err
      | Inr content \<Rightarrow>
          (case response_content content of
             Inl err \<Rightarrow> Inl err
           | Inr responseContent \<Rightarrow>
               Inr \<lparr> res_status = 200, res_headers = cors_headers,
                     res_body = ResultBody
                       \<lparr> ieltsScores = parse_scores e responseContent,
                         transcript = d_transcript d,
                         metrics = d_metrics d,
                         question = d_question d,
                         part = d_part d \<rparr> \<rparr>))"

text \<open>\<open>handler(req, res)\<close>: the response it sends.\<close>

definition handler :: "env \<Rightarrow> request \<Rightarrow> response" where
  "handler e req =
     (if req_method req = ''OPTIONS'' then
        \<lparr> res_status = 200, res_headers = cors_headers, res_body = NoBody \<rparr>
      else if req_method req \<noteq> ''POST'' then
        \<lparr> res_status = 405, res_headers = cors_headers @ [(''Allow'', ''POST'')],
          res_body = ErrorBody \<lparr> err_error = ''Method not allowed'', err_details = None, err_status = None \<rparr> \<rparr>
      else
        (case prepare e req of
           Inl err \<Rightarrow> error_response e err
         | Inr (Inl r) \<Rightarrow> r
         | Inr (Inr d) \<Rightarrow>
             (case complete e d of
                Inl err \<Rightarrow> error_response e err
              | Inr r \<Rightarrow> r)))"

section \<open>Notions the properties are stated with\<close>

text \<open>The gap before word \<open>i\<close>: \<open>words[i].start - words[i - 1].end\<close>.\<close>

definition gap :: "TimedWord list \<Rightarrow> nat \<Rightarrow> jsnum" where
  "gap words i = js_sub (to_number (start (words ! i))) (to_number (end_t (words ! (i - 1))))"

text \<open>The pause threshold of the source, \<open>pause > 0.2\<close>.\<close>

definition is_pause :: "jsnum \<Rightarrow> bool" where
  "is_pause g = js_gt g (js_lit (1 / 5))"

text \<open>The gaps of all adjacent pairs that pass the threshold, in order.\<close>

definition recorded_pauses :: "TimedWord list \<Rightarrow> jsnum list" where
  "recorded_pauses words = filter is_pause (map (gap words) [1..<length words])"

text \<open>Sample inputs: a word with its time stamps, and sequences of such words.\<close>

definition timed :: "string \<Rightarrow> rat \<Rightarrow> rat \<Rightarrow> TimedWord" where
  "timed t s e = \<lparr> word = Str t, start = Some (Fin s), end_t = Some (Fin e) \<rparr>"

definition sample_words :: "TimedWord list" where
  "sample_words = [timed ''the'' 0 (1 / 8), timed ''quick'' (1 / 8) (1 / 4), timed ''brown'' 1 (5 / 4)]"

definition untimed_words :: "TimedWord list" where
  "untimed_words = [\<lparr> word = Str ''um'', start = None, end_t = None \<rparr>,
                    \<lparr> word = Str ''so'', start = None, end_t = None \<rparr>]"

definition textless_words :: "TimedWord list" where
  "textless_words = [\<lparr> word = Undefined, start = Some (Fin 0), end_t = Some (Fin (1 / 2)) \<rparr>]"

text \<open>
  The sample sequence with a fourth word: two recorded pauses, 0.75 and 0.25.
\<close>

definition paused_words :: "TimedWord list" where
  "paused_words = sample_words @ [timed ''fox'' (3 / 2) (7 / 4)]"

text \<open>
  A sequence of \<open>n\<close> words, word \<open>i\<close> spoken from second \<open>i\<close> to second \<open>i + 0.5\<close>: every
  gap is half a second. (These time stamps are doubles for fewer than \<open>2^52\<close> words.)
\<close>

definition spaced_words :: "nat \<Rightarrow> TimedWord list" where
  "spaced_words n = map (\<lambda>i. timed ''go'' (of_nat i) (of_nat i + 1 / 2)) [0..<n]"

text \<open>The mean as the source computes it: the sum from 0, left to right, over the count.\<close>

definition js_mean :: "jsnum list \<Rightarrow> jsnum" where
  "js_mean xs = js_div (foldl js_add (Fin 0) xs) (js_of_nat (length xs))"

text \<open>
  A non-negative rational below \<open>10^21\<close> printed with two decimals: \<open>n\<close> is the integer
  nearest to \<open>100 * q\<close> (the larger one on a tie); its hundreds are the integer part,
  its last two digits the decimals.
\<close>

definition decimal2 :: "rat \<Rightarrow> string" where
  "decimal2 q =
     (let n = nat \<lfloor>q * 100 + 1 / 2\<rfloor>
      in digits_of (n div 100) @ ''.'' @ [digit_char (n div 10 mod 10), digit_char (n mod 10)])"

text \<open>Positive zero, a positive finite number or positive infinity.\<close>

definition non_negative :: "jsnum \<Rightarrow> bool" where
  "non_negative x = (\<not> is_neg x \<and> x \<noteq> NaN)"

section \<open>Notions the properties of the handler are stated with\<close>

text \<open>Property access on a plain object: the value of the first entry with the key,
  \<open>Undefined\<close> when there is none or the value is not an object.\<close>

definition get_prop :: "jsval \<Rightarrow> string \<Rightarrow> jsval" where
  "get_prop v k =
     (case v of
        Obj kvs \<Rightarrow> (case map_of kvs k of None \<Rightarrow> Undefined | Some x \<Rightarrow> x)
      | _ \<Rightarrow> Undefined)"

definition response_metrics :: "response \<Rightarrow> SpeechMetrics option" where
  "response_metrics r = (case res_body r of ResultBody fr \<Rightarrow> metrics fr | _ \<Rightarrow> None)"

definition response_scores :: "response \<Rightarrow> jsval option" where
  "response_scores r = (case res_body r of ResultBody fr \<Rightarrow> Some (ieltsScores fr) | _ \<Rightarrow> None)"

text \<open>Sample environment and requests.\<close>

definition env_replying :: "jsval \<Rightarrow> env" where
  "env_replying content =
     \<lparr> api_key_set = True,
       max_arguments = 65536,
       transcribe = (\<lambda>u. Inr \<lparr> t_text = ''the quick brown'', t_words = Some sample_words,
                               t_duration = Some (Fin 5) \<rparr>),
       chat = (\<lambda>p. Inr content),
       json_parse = (\<lambda>s. if s = ''{}'' then Some (Obj []) else None) \<rparr>"

definition text_request :: request where
  "text_request =
     \<lparr> req_method = ''POST'', content_type = Some ''application/json'', raw_body = [],
       body_text = Str ''I like tea'', body_question = Undefined, body_part = Undefined \<rparr>"

text \<open>
  The body of an audio request with the boundary \<open>XyZ\<close>: a file part \<open>audio\<close> with the
  file name \<open>a.webm\<close> and the four bytes \<open>RIFF\<close>, and a field \<open>duration\<close> with the
  given text.
\<close>

definition audio_body :: "string \<Rightarrow> string" where
  "audio_body dur =
     ''--XyZ'' @ crlf
     @ ''Content-Disposition: form-data; name='' @ [dquote] @ ''audio'' @ [dquote]
       @ ''; filename='' @ [dquote] @ ''a.webm'' @ [dquote] @ crlf
     @ ''Content-Type: audio/webm'' @ crlf
     @ crlf
     @ ''RIFF'' @ crlf
     @ ''--XyZ'' @ crlf
     @ ''Content-Disposition: form-data; name='' @ [dquote] @ ''duration'' @ [dquote] @ crlf
     @ crlf
     @ dur @ crlf
     @ ''--XyZ--'' @ crlf"

definition audio_request :: "string \<Rightarrow> request" where
  "audio_request dur =
     \<lparr> req_method = ''POST'', content_type = Some ''multipart/form-data; boundary=XyZ'',
       raw_body = audio_body dur,
       body_text = Undefined, body_question = Undefined, body_part = Undefined \<rparr>"

section \<open>Notions the round trip of the decoder is stated with\<close>

text \<open>
  Modelled from the spec: the encoder of a multipart body is not part of the repository
  (the client sends it). This is the \<open>multipart/form-data\<close> layout that the decoder's
  contract presupposes: every part starts with the delimiter \<open>--boundary\<close> and a line
  break, carries a \<open>Content-Disposition\<close> header with a \<open>name\<close> parameter (a file part
  also a \<open>filename\<close> parameter and a \<open>Content-Type\<close> header), a blank line, the content
  and a line break; the body ends with \<open>--boundary--\<close> and a line break.
\<close>

datatype form_part = Field string string | File string string string string

text \<open>Modelled from the spec: the header lines of a part (the encoder is not in the
  repository).\<close>

definition part_headers :: "form_part \<Rightarrow> string" where
  "part_headers p =
     (case p of
        Field name v \<Rightarrow> ''Content-Disposition: form-data; name='' @ [dquote] @ name @ [dquote]
      | File name fname ctype bytes \<Rightarrow>
          ''Content-Disposition: form-data; name='' @ [dquote] @ name @ [dquote]
          @ ''; filename='' @ [dquote] @ fname @ [dquote] @ crlf @ ''Content-Type: '' @ ctype)"

text \<open>Modelled from the spec: the content of a part, sent as it is.\<close>

definition part_content :: "form_part \<Rightarrow> string" where
  "part_content p = (case p of Field name v \<Rightarrow> v | File name fname ctype bytes \<Rightarrow> bytes)"

text \<open>Modelled from the spec: a part in the body, from its delimiter to the line break
  after its content.\<close>

definition encode_part :: "string \<Rightarrow> form_part \<Rightarrow> string" where
  "encode_part boundary p =
     ''--'' @ boundary @ crlf @ part_headers p @ crlf @ crlf @ part_content p @ crlf"

text \<open>Modelled from the spec: the body, the parts followed by the closing delimiter.\<close>

definition encode_multipart :: "string \<Rightarrow> form_part list \<Rightarrow> string" where
  "encode_multipart boundary ps =
     concat (map (encode_part boundary) ps) @ ''--'' @ boundary @ ''--'' @ crlf"

text \<open>Modelled from the spec: the \<open>content-type\<close> header that announces the boundary.\<close>

definition multipart_header :: "string \<Rightarrow> string" where
  "multipart_header boundary = ''multipart/form-data; boundary='' @ boundary"

text \<open>No occurrence of the delimiter \<open>D\<close> starts inside \<open>X\<close> when \<open>D\<close> follows \<open>X\<close>.\<close>

definition no_early :: "string \<Rightarrow> string \<Rightarrow> bool" where
  "no_early D X = (\<forall>j < length X. \<not> starts_with (drop j (X @ D)) D)"

text \<open>The text of an encoded part after its delimiter.\<close>

definition piece :: "form_part \<Rightarrow> string" where
  "piece p = crlf @ part_headers p @ crlf @ crlf @ part_content p @ crlf"

text \<open>\<open>s.endsWith(p)\<close>.\<close>

definition ends_with :: "string \<Rightarrow> string \<Rightarrow> bool" where
  "ends_with s p = (length p \<le> length s \<and> drop (length s - length p) s = p)"

text \<open>
  The parts the round trip is proved for. A name is not empty, is not \<open>__proto__\<close>, has
  no double quote and no carriage return, and does not end with \<open>filename=\<close>. The
  delimiter does not occur in the text of the part. The pattern \<open>/filename="([^"]+)"/\<close>
  does not match the value of a field. A file name is not empty and has no double quote
  and no carriage return; a content type has no carriage return. The content of a file is
  not restricted otherwise: any bytes.
\<close>

definition name_ok :: "string \<Rightarrow> bool" where
  "name_ok n = (n \<noteq> [] \<and> n \<noteq> ''__proto__'' \<and> dquote \<notin> set n \<and> CHR 0x0D \<notin> set n
                \<and> \<not> ends_with n ''filename='')"

definition part_ok :: "string \<Rightarrow> form_part \<Rightarrow> bool" where
  "part_ok boundary p =
     (\<not> includes_str (piece p) (''--'' @ boundary)
      \<and> (case p of
            Field n v \<Rightarrow> name_ok n \<and> match_param ''filename'' v = None
          | File n fname ctype bytes \<Rightarrow>
              name_ok n \<and> fname \<noteq> [] \<and> dquote \<notin> set fname \<and> CHR 0x0D \<notin> set fname
              \<and> CHR 0x0D \<notin> set ctype))"

text \<open>A boundary is not empty, has no carriage return and no line feed, and does not
  contain the text \<open>boundary=\<close>.\<close>

definition boundary_ok :: "string \<Rightarrow> bool" where
  "boundary_ok boundary =
     (boundary \<noteq> [] \<and> CHR 0x0D \<notin> set boundary \<and> CHR 0x0A \<notin> set boundary
      \<and> \<not> includes_str boundary ''boundary='')"

text \<open>What a part should leave in the decoded form: its value under its name.\<close>

definition store_part :: "parsed_form \<Rightarrow> form_part \<Rightarrow> parsed_form" where
  "store_part r p =
     (case p of
        Field n v \<Rightarrow> r\<lparr> form_fields := (form_fields r)(n \<mapsto> v) \<rparr>
      | File n fname ctype bytes \<Rightarrow>
          r\<lparr> form_files := (form_files r)(n \<mapsto> \<lparr> filename = fname, data = bytes \<rparr>) \<rparr>)"

text \<open>The form that holds every part of a list, a later part replacing an earlier one of
  the same name and kind.\<close>

definition decoded :: "form_part list \<Rightarrow> parsed_form" where
  "decoded ps = foldl store_part \<lparr> form_fields = Map.empty, form_files = Map.empty \<rparr> ps"

definition part_name :: "form_part \<Rightarrow> string" where
  "part_name p = (case p of Field n v \<Rightarrow> n | File n fname ctype bytes \<Rightarrow> n)"

text \<open>A file with bytes above 0x7F, a line break and a double quote, and a field.\<close>

definition sample_parts :: "form_part list" where
  "sample_parts =
     [File ''audio'' ''a.webm'' ''audio/webm'' [CHR 0xFF, CHR 0x00, CHR 0x80, CHR 0x0D, CHR 0x0A, CHR 0x22],
      Field ''duration'' ''2'']"

text \<open>A field whose value quotes a file name.\<close>

definition quoting_parts :: "form_part list" where
  "quoting_parts = [Field ''question'' (''say filename='' @ [dquote] @ ''x'' @ [dquote])]"

section \<open>Properties of the rounding\<close>

text \<open>
  The tests of the pacing classification multiply a count by the doubles nearest to 0.3
  and to 0.1 and round the product. For counts below \<open>2^50\<close> (a JavaScript array has
  fewer than \<open>2^32\<close> elements) the rounded products compare with a count exactly as the
  real products \<open>0.3 * n\<close> and \<open>0.1 * n\<close> do.
\<close>

lemma pow2_powi: "pow2 e = 2 powi e"
  by (simp add: pow2_def power_int_def field_simps)

lemma pow2_positive: "0 < pow2 e"
  by (simp add: pow2_powi)

lemma pow2_add: "pow2 (a + b) = pow2 a * pow2 b"
  by (simp add: pow2_powi power_int_add)

lemma pow2_mono: "a \<le> b \<Longrightarrow> pow2 a \<le> pow2 b"
  by (simp add: pow2_powi power_int_increasing)

lemma pow2_nat: "0 \<le> e \<Longrightarrow> pow2 e = 2 ^ nat e"
  by (simp add: pow2_def)

lemma quotient_of_pos:
  assumes "0 < a" and "quotient_of a = (n, d)"
  shows "0 < n" and "0 < d" and "a = of_int n / of_int d"
proof -
  show d: "0 < d" using assms(2) quotient_of_denom_pos by blast
  show a: "a = of_int n / of_int d" using assms(2) quotient_of_div by blast
  show "0 < n" using assms(1) d unfolding a by (simp add: zero_less_divide_iff)
qed

lemma bitlen_pow2_bounds:
  assumes "0 < n"
  shows "pow2 (bitlen n - 1) \<le> of_int n" and "of_int n < pow2 (bitlen n)"
proof -
  have b: "1 \<le> bitlen n" using assms by (simp add: bitlen_alt_def)
  have "(2::int) ^ nat (bitlen n - 1) \<le> n" and "n < 2 ^ nat (bitlen n)"
    using bitlen_bounds [OF assms] by simp_all
  then have "(of_int (2 ^ nat (bitlen n - 1)) :: rat) \<le> of_int n"
    and "(of_int n :: rat) < of_int (2 ^ nat (bitlen n))"
    by (simp_all only: of_int_le_iff of_int_less_iff)
  then show "pow2 (bitlen n - 1) \<le> of_int n" and "of_int n < pow2 (bitlen n)"
    using b by (simp_all add: pow2_nat)
qed

lemma ilog2_bounds:
  assumes "0 < a"
  shows "pow2 (ilog2 a) \<le> a" and "a < pow2 (ilog2 a + 1)"
proof -
  obtain n d where q: "quotient_of a = (n, d)" by (cases "quotient_of a")
  note nd = quotient_of_pos [OF assms q]
  let ?k = "bitlen n - bitlen d"
  have n1: "pow2 (bitlen n - 1) \<le> of_int n" and n2: "of_int n < pow2 (bitlen n)"
    using bitlen_pow2_bounds [OF nd(1)] by simp_all
  have d1: "pow2 (bitlen d - 1) \<le> of_int d" and d2: "of_int d < pow2 (bitlen d)"
    using bitlen_pow2_bounds [OF nd(2)] by simp_all
  have dpos: "(0::rat) < of_int d" using nd(2) by simp
  have up: "a < pow2 (?k + 1)"
  proof -
    have "of_int n < pow2 (bitlen n)" by (rule n2)
    also have "pow2 (bitlen n) = pow2 (?k + 1) * pow2 (bitlen d - 1)"
      by (simp add: pow2_add [symmetric])
    also have "\<dots> \<le> pow2 (?k + 1) * of_int d"
      using d1 pow2_positive [of "?k + 1"] by simp
    finally have "of_int n < pow2 (?k + 1) * of_int d" .
    then show ?thesis unfolding nd(3) using dpos by (simp add: pos_divide_less_eq)
  qed
  have lo: "pow2 (?k - 1) \<le> a"
  proof -
    have "pow2 (?k - 1) * of_int d \<le> pow2 (?k - 1) * pow2 (bitlen d)"
      using d2 pow2_positive [of "?k - 1"] by simp
    also have "\<dots> = pow2 (bitlen n - 1)"
      by (simp add: pow2_add [symmetric])
    also have "\<dots> \<le> of_int n" by (rule n1)
    finally show ?thesis unfolding nd(3) using dpos by (simp add: pos_le_divide_eq)
  qed
  have il: "ilog2 a = (if pow2 ?k \<le> a then ?k else ?k - 1)"
    by (simp add: ilog2_def q Let_def)
  show "pow2 (ilog2 a) \<le> a" using lo by (simp add: il)
  show "a < pow2 (ilog2 a + 1)" using up by (auto simp: il not_le)
qed

lemma round_half_even_error: "\<bar>of_int (round_half_even q) - q\<bar> \<le> 1 / 2"
proof -
  have "of_int \<lfloor>q\<rfloor> \<le> q" and "q < of_int \<lfloor>q\<rfloor> + 1" by linarith+
  then show ?thesis
    by (auto simp: round_half_even_def Let_def abs_le_iff)
qed

lemma pow2_less_cancel: "pow2 a < pow2 b \<Longrightarrow> a < b"
  using pow2_mono [of b a] by (cases "a < b") auto

lemma fl_round_normal:
  assumes "0 < a" and "- 1022 \<le> ilog2 a" and "ilog2 a < 1023"
  shows "\<exists>m. fl_round False a = Fin (of_int m * pow2 (ilog2 a - 52))
           \<and> \<bar>of_int m * pow2 (ilog2 a - 52) - a\<bar> \<le> pow2 (ilog2 a - 52) / 2"
proof -
  let ?u = "pow2 (ilog2 a - 52)"
  let ?m = "round_half_even (a / ?u)"
  have u: "0 < ?u" by (rule pow2_positive)
  have "\<bar>of_int ?m - a / ?u\<bar> \<le> 1 / 2" by (rule round_half_even_error)
  then have "\<bar>of_int ?m - a / ?u\<bar> * ?u \<le> 1 / 2 * ?u"
    using u by (simp only: mult_le_cancel_right_pos)
  moreover have "\<bar>of_int ?m - a / ?u\<bar> * ?u = \<bar>of_int ?m * ?u - a\<bar>"
  proof -
    have "\<bar>of_int ?m - a / ?u\<bar> * ?u = \<bar>(of_int ?m - a / ?u) * ?u\<bar>"
      using u by (simp add: abs_mult)
    also have "(of_int ?m - a / ?u) * ?u = of_int ?m * ?u - a"
      using u by (simp add: field_simps)
    finally show ?thesis .
  qed
  ultimately have err: "\<bar>of_int ?m * ?u - a\<bar> \<le> ?u / 2" by simp
  have e: "max (ilog2 a) (- 1022) = ilog2 a" using assms(2) by simp
  have "fl_round False a = Fin (of_int ?m * ?u)"
    using assms by (simp add: fl_round_def Let_def e js_zero_def)
  then show ?thesis using err by blast
qed

lemma multiples_close:
  assumes "0 < (u::rat)" and "\<bar>of_int m * u - of_int k * u\<bar> < u"
  shows "m = k"
proof -
  have "\<bar>of_int m * u - of_int k * u\<bar> = \<bar>of_int (m - k)\<bar> * u"
    using assms(1) by (simp add: left_diff_distrib [symmetric] abs_mult)
  then have "\<bar>of_int (m - k) :: rat\<bar> * u < 1 * u" using assms(2) by simp
  then have "\<bar>of_int (m - k) :: rat\<bar> < 1" using assms(1) by (simp only: mult_less_cancel_right_pos)
  then have "\<bar>m - k\<bar> < 1" by (simp only: of_int_abs [symmetric] of_int_less_1_iff)
  then show ?thesis by simp
qed

lemma lit_03: "js_lit (3 / 10) = Fin (5404319552844595 / 18014398509481984)"
  by code_simp

lemma lit_01: "js_lit (1 / 10) = Fin (3602879701896397 / 36028797018963968)"
  by code_simp

lemma js_mul_nat_lit:
  assumes "0 \<le> c"
  shows "js_mul (js_of_nat n) (Fin c) = fl_round False (of_nat n * c)"
  using assms by (simp add: js_mul_def js_of_nat_def)

text \<open>The product of a count with a constant between 1/16 and 1, rounded.\<close>

lemma product_rounded:
  assumes "0 < n" and "n < 2 ^ 50" and "1 / 16 \<le> c" and "c \<le> 1"
  shows "\<exists>m e. - 5 \<le> e \<and> e < 50
          \<and> pow2 e \<le> of_nat n * c \<and> of_nat n * c < pow2 (e + 1)
          \<and> fl_round False (of_nat n * c) = Fin (of_int m * pow2 (e - 52))
          \<and> \<bar>of_int m * pow2 (e - 52) - of_nat n * c\<bar> \<le> pow2 (e - 52) / 2"
proof -
  let ?a = "of_nat n * c :: rat"
  have n1: "(1::rat) \<le> of_nat n" using assms(1) by simp
  have n2: "(of_nat n :: rat) < 2 ^ 50"
    using assms(2) by (metis of_nat_less_iff of_nat_numeral of_nat_power)
  have a0: "0 < ?a" using n1 assms(3) by (simp add: mult_pos_pos)
  have lo: "1 / 16 \<le> ?a"
  proof -
    have "1 * (1 / 16) \<le> of_nat n * c"
      using n1 assms(3) by (intro mult_mono) simp_all
    then show ?thesis by simp
  qed
  have hi: "?a < 2 ^ 50"
  proof -
    have "of_nat n * c \<le> of_nat n * 1" using assms(4) n1 by (intro mult_left_mono) simp_all
    then show ?thesis using n2 by simp
  qed
  note b = ilog2_bounds [OF a0]
  have "pow2 (- 4) = 1 / 16" by (simp add: pow2_def)
  then have "pow2 (- 4) < pow2 (ilog2 ?a + 1)" using lo b(2) by simp
  then have e1: "- 5 \<le> ilog2 ?a" using pow2_less_cancel by fastforce
  have "pow2 50 = 2 ^ 50" by (simp add: pow2_def)
  then have "pow2 (ilog2 ?a) < pow2 50" using hi b(1) by simp
  then have e2: "ilog2 ?a < 50" by (rule pow2_less_cancel)
  obtain m where "fl_round False ?a = Fin (of_int m * pow2 (ilog2 ?a - 52))"
      and "\<bar>of_int m * pow2 (ilog2 ?a - 52) - ?a\<bar> \<le> pow2 (ilog2 ?a - 52) / 2"
    using fl_round_normal [OF a0] e1 e2 by auto
  then show ?thesis using e1 e2 b by blast
qed

lemma ulp_bound:
  assumes "pow2 e \<le> a"
  shows "pow2 (e - 52) / 2 \<le> a / 9007199254740992"
proof -
  have "pow2 (e - 52) = pow2 e * pow2 (- 52)" using pow2_add [of e "- 52"] by simp
  also have "pow2 (- 52) = 1 / 4503599627370496" by (simp add: pow2_def)
  finally have "pow2 (e - 52) = pow2 e / 4503599627370496" by simp
  then show ?thesis using assms by simp
qed

lemma nat_as_multiple:
  assumes "e < 52"
  shows "\<exists>k. (of_nat p :: rat) = of_int k * pow2 (e - 52)"
proof -
  have "pow2 (52 - e) * pow2 (e - 52) = 1"
    using pow2_add [of "52 - e" "e - 52"] by (simp add: pow2_def)
  moreover have "pow2 (52 - e) = of_int (2 ^ nat (52 - e))"
    using assms by (simp add: pow2_def)
  ultimately have "(of_nat p :: rat) = of_int (int p * 2 ^ nat (52 - e)) * pow2 (e - 52)"
    by (simp add: mult.assoc)
  then show ?thesis by blast
qed

lemma of_nat_below_2_50: "n < 2 ^ 50 \<Longrightarrow> (of_nat n :: rat) < 1125899906842624"
proof -
  assume "n < 2 ^ 50"
  then have "(of_nat n :: rat) < of_nat (2 ^ 50)" by (simp only: of_nat_less_iff)
  then show ?thesis by simp
qed

lemma halting_above:
  fixes N P r :: rat
  assumes "N < 1125899906842624" and "0 < N"
    and "\<bar>r - N * (5404319552844595 / 18014398509481984)\<bar>
         \<le> N * (5404319552844595 / 18014398509481984) / 9007199254740992"
    and "3 * N + 1 \<le> 10 * P"
  shows "r < P"
  using assms(1,2,4) abs_le_D1 [OF assms(3)] by linarith

lemma halting_below:
  fixes N P r :: rat
  assumes "N < 1125899906842624" and "0 < N"
    and "\<bar>r - N * (5404319552844595 / 18014398509481984)\<bar>
         \<le> N * (5404319552844595 / 18014398509481984) / 9007199254740992"
    and "10 * P + 1 \<le> 3 * N"
  shows "P \<le> r"
  using assms(1,2,4) abs_le_D2 [OF assms(3)] by linarith

lemma halting_tie:
  fixes N P r u :: rat
  assumes "0 < N" and "10 * P = 3 * N"
    and "N * (5404319552844595 / 18014398509481984) < u * 9007199254740992"
    and "\<bar>r - N * (5404319552844595 / 18014398509481984)\<bar> \<le> u / 2"
  shows "\<bar>r - P\<bar> < u"
  using assms(1,2,3) abs_le_D1 [OF assms(4)] abs_le_D2 [OF assms(4)] by (simp add: abs_less_iff)

lemma halting_exact:
  assumes "0 < n" and "n < 2 ^ 50"
  shows "js_gt (js_of_nat p) (js_mul (js_of_nat n) (js_lit (3 / 10))) \<longleftrightarrow> 3 * n < 10 * p"
proof -
  let ?c = "5404319552844595 / 18014398509481984 :: rat"
  let ?N = "of_nat n :: rat" and ?P = "of_nat p :: rat"
  let ?a = "?N * ?c"
  obtain m e where e: "- 5 \<le> e" "e < 50" and ae: "pow2 e \<le> ?a" "?a < pow2 (e + 1)"
    and fl: "fl_round False ?a = Fin (of_int m * pow2 (e - 52))"
    and err: "\<bar>of_int m * pow2 (e - 52) - ?a\<bar> \<le> pow2 (e - 52) / 2"
    using product_rounded [OF assms, of ?c] by auto
  let ?u = "pow2 (e - 52)" and ?r = "of_int m * pow2 (e - 52)"
  have u: "0 < ?u" by (rule pow2_positive)
  have N: "?N < 1125899906842624"
    using assms(2) by (rule of_nat_below_2_50)
  have N0: "0 < ?N" using assms(1) by simp
  have "js_mul (js_of_nat n) (js_lit (3 / 10)) = Fin ?r"
    unfolding lit_03 using js_mul_nat_lit [of ?c n] fl by simp
  then have gt: "js_gt (js_of_nat p) (js_mul (js_of_nat n) (js_lit (3 / 10))) \<longleftrightarrow> ?r < ?P"
    by (simp add: js_gt_def js_of_nat_def)
  have rel: "\<bar>?r - ?a\<bar> \<le> ?a / 9007199254740992"
    using err ulp_bound [OF ae(1)] by linarith
  consider "3 * n < 10 * p" | "10 * p < 3 * n" | "10 * p = 3 * n" by linarith
  then show ?thesis
  proof cases
    case 1
    then have "3 * n + 1 \<le> 10 * p" by simp
    then have "(of_nat (3 * n + 1) :: rat) \<le> of_nat (10 * p)" by (simp only: of_nat_le_iff)
    then have "3 * ?N + 1 \<le> 10 * ?P" by simp
    then have "?r < ?P" by (rule halting_above [OF N N0 rel])
    then show ?thesis using 1 gt by simp
  next
    case 2
    then have "10 * p + 1 \<le> 3 * n" by simp
    then have "(of_nat (10 * p + 1) :: rat) \<le> of_nat (3 * n)" by (simp only: of_nat_le_iff)
    then have "10 * ?P + 1 \<le> 3 * ?N" by simp
    then have "?P \<le> ?r" by (rule halting_below [OF N N0 rel])
    then show ?thesis using 2 gt by simp
  next
    case 3
    then have "(of_nat (10 * p) :: rat) = of_nat (3 * n)" by (simp only:)
    then have P: "10 * ?P = 3 * ?N" by simp
    obtain k where k: "?P = of_int k * ?u" using nat_as_multiple [of e p] e by auto
    have "e + 1 = (e - 52) + 53" by simp
    then have "pow2 (e + 1) = ?u * pow2 53" by (simp only: pow2_add)
    also have "pow2 53 = 9007199254740992" by (simp add: pow2_def)
    finally have "?a < ?u * 9007199254740992" using ae(2) by simp
    then have "\<bar>?r - ?P\<bar> < ?u" using err by (intro halting_tie [OF N0 P])
    then have "m = k" unfolding k using multiples_close [OF u] by blast
    then have "?r = ?P" using k by simp
    then show ?thesis using 3 gt by simp
  qed
qed

lemma rushed_below:
  fixes N P r :: rat
  assumes "N < 1125899906842624" and "0 < N"
    and "\<bar>r - N * (3602879701896397 / 36028797018963968)\<bar>
         \<le> N * (3602879701896397 / 36028797018963968) / 9007199254740992"
    and "10 * P + 1 \<le> N"
  shows "P < r"
  using assms(1,2,4) abs_le_D2 [OF assms(3)] by linarith

lemma rushed_above:
  fixes N P r :: rat
  assumes "N < 1125899906842624" and "0 < N"
    and "\<bar>r - N * (3602879701896397 / 36028797018963968)\<bar>
         \<le> N * (3602879701896397 / 36028797018963968) / 9007199254740992"
    and "N + 1 \<le> 10 * P"
  shows "r \<le> P"
  using assms(1,2,4) abs_le_D1 [OF assms(3)] by linarith

lemma rushed_tie:
  fixes N P r u :: rat
  assumes "0 < N" and "10 * P = N"
    and "N * (3602879701896397 / 36028797018963968) < u * 9007199254740992"
    and "\<bar>r - N * (3602879701896397 / 36028797018963968)\<bar> \<le> u / 2"
  shows "\<bar>r - P\<bar> < u"
  using assms(1,2,3) abs_le_D1 [OF assms(4)] abs_le_D2 [OF assms(4)] by (simp add: abs_less_iff)

lemma rushed_exact:
  assumes "0 < n" and "n < 2 ^ 50"
  shows "js_lt (js_of_nat p) (js_mul (js_of_nat n) (js_lit (1 / 10))) \<longleftrightarrow> 10 * p < n"
proof -
  let ?c = "3602879701896397 / 36028797018963968 :: rat"
  let ?N = "of_nat n :: rat" and ?P = "of_nat p :: rat"
  let ?a = "?N * ?c"
  obtain m e where e: "- 5 \<le> e" "e < 50" and ae: "pow2 e \<le> ?a" "?a < pow2 (e + 1)"
    and fl: "fl_round False ?a = Fin (of_int m * pow2 (e - 52))"
    and err: "\<bar>of_int m * pow2 (e - 52) - ?a\<bar> \<le> pow2 (e - 52) / 2"
    using product_rounded [OF assms, of ?c] by auto
  let ?u = "pow2 (e - 52)" and ?r = "of_int m * pow2 (e - 52)"
  have u: "0 < ?u" by (rule pow2_positive)
  have N: "?N < 1125899906842624"
    using assms(2) by (rule of_nat_below_2_50)
  have N0: "0 < ?N" using assms(1) by simp
  have "js_mul (js_of_nat n) (js_lit (1 / 10)) = Fin ?r"
    unfolding lit_01 using js_mul_nat_lit [of ?c n] fl by simp
  then have lt: "js_lt (js_of_nat p) (js_mul (js_of_nat n) (js_lit (1 / 10))) \<longleftrightarrow> ?P < ?r"
    by (simp add: js_of_nat_def)
  have rel: "\<bar>?r - ?a\<bar> \<le> ?a / 9007199254740992"
    using err ulp_bound [OF ae(1)] by linarith
  consider "10 * p < n" | "n < 10 * p" | "10 * p = n" by linarith
  then show ?thesis
  proof cases
    case 1
    then have "10 * p + 1 \<le> n" by simp
    then have "(of_nat (10 * p + 1) :: rat) \<le> of_nat n" by (simp only: of_nat_le_iff)
    then have "10 * ?P + 1 \<le> ?N" by simp
    then have "?P < ?r" by (rule rushed_below [OF N N0 rel])
    then show ?thesis using 1 lt by simp
  next
    case 2
    then have "n + 1 \<le> 10 * p" by simp
    then have "(of_nat (n + 1) :: rat) \<le> of_nat (10 * p)" by (simp only: of_nat_le_iff)
    then have "?N + 1 \<le> 10 * ?P" by simp
    then have "?r \<le> ?P" by (rule rushed_above [OF N N0 rel])
    then show ?thesis using 2 lt by simp
  next
    case 3
    then have "(of_nat (10 * p) :: rat) = of_nat n" by (simp only:)
    then have P: "10 * ?P = ?N" by simp
    obtain k where k: "?P = of_int k * ?u" using nat_as_multiple [of e p] e by auto
    have "e + 1 = (e - 52) + 53" by simp
    then have "pow2 (e + 1) = ?u * pow2 53" by (simp only: pow2_add)
    also have "pow2 53 = 9007199254740992" by (simp add: pow2_def)
    finally have "?a < ?u * 9007199254740992" using ae(2) by simp
    then have "\<bar>?r - ?P\<bar> < ?u" using err by (intro rushed_tie [OF N0 P])
    then have "m = k" unfolding k using multiples_close [OF u] by blast
    then have "?r = ?P" using k by simp
    then show ?thesis using 3 lt by simp
  qed
qed

lemma classify_pacing_exact:
  assumes "0 < n" and "n < 2 ^ 50"
  shows "classify_pacing p n wpm =
           (if 3 * n < 10 * p then ''halting''
            else if 10 * p < n \<and> js_gt wpm (Fin 150) then ''rushed''
            else ''steady'')"
  by (simp add: classify_pacing_def halting_exact [OF assms] rushed_exact [OF assms])

section \<open>Properties of the speech metrics analyzer\<close>

lemma pause_loop_unfolded:
  "pause_loop words i pauses =
     pauses @ filter (\<lambda>g. js_gt g (js_lit (1 / 5)))
       (map (\<lambda>k. js_sub (to_number (start (words ! k))) (to_number (end_t (words ! (k - 1)))))
          [i..<length words])"
proof (induction words i pauses rule: pause_loop.induct)
  case (1 words i pauses)
  show ?case
  proof (cases "i < length words")
    case True
    then have up: "[i..<length words] = i # [Suc i..<length words]"
      by (simp add: upt_conv_Cons)
    show ?thesis
      using True 1 by (subst pause_loop.simps) (simp add: up Let_def)
  next
    case False
    then show ?thesis by (subst pause_loop.simps) simp
  qed
qed

lemma pause_loop_filter:
  "pause_loop words i pauses = pauses @ filter is_pause (map (gap words) [i..<length words])"
  unfolding gap_def [abs_def] is_pause_def [abs_def] by (rule pause_loop_unfolded)

lemma pause_loop_recorded: "pause_loop words (Suc 0) [] = recorded_pauses words"
  by (simp add: pause_loop_filter recorded_pauses_def)

lemma count_fillers_strings:
  "(\<forall>w \<in> set ws. \<exists>s. word w = Str s) \<Longrightarrow> \<exists>c. count_fillers ws n = Inr c"
  by (induction ws arbitrary: n) (auto simp: Let_def)

lemma count_fillers_non_string:
  "\<exists>w \<in> set ws. \<forall>s. word w \<noteq> Str s \<Longrightarrow> count_fillers ws n = Inl TypeError"
  by (induction ws arbitrary: n) (auto simp: Let_def split: jsval.splits)

lemma recorded_pauses_Nil: "recorded_pauses [] = []"
  by (simp add: recorded_pauses_def)

lemma length_recorded_pauses: "length (recorded_pauses words) \<le> length words - 1"
proof -
  have "length (recorded_pauses words) \<le> length (map (gap words) [1..<length words])"
    unfolding recorded_pauses_def by (rule length_filter_le)
  then show ?thesis by simp
qed

lemma analyzeMetrics_Inr:
  assumes "analyzeMetrics cap (Some words) duration = Inr m" and "words \<noteq> []"
  shows "wordsPerMinute m =
           math_round (js_mul (js_div (js_of_nat (length words)) (to_number duration)) (Fin 60))"
    and "pauseCount m = Some (length (recorded_pauses words))"
    and "pacingVariation m =
           classify_pacing (length (recorded_pauses words)) (length words) (wordsPerMinute m)"
    and "averagePauseDuration m =
           (if recorded_pauses words = [] then Number (Fin 0)
            else toFixed2 (js_div (foldl js_add (Fin 0) (recorded_pauses words))
                                  (js_of_nat (length (recorded_pauses words)))))"
    and "longestPause m =
           (if recorded_pauses words = [] then Number (Fin 0)
            else toFixed2 (math_max (recorded_pauses words)))"
  using assms
  by (auto simp: analyzeMetrics_def pause_loop_recorded math_max_spread_def Let_def
      split: sum.splits if_splits)

lemma analyzeMetrics_returns:
  assumes "\<forall>w \<in> set words. \<exists>s. word w = Str s" and "length (recorded_pauses words) \<le> cap"
  shows "\<exists>m. analyzeMetrics cap (Some words) duration = Inr m"
proof -
  obtain c where "count_fillers words 0 = Inr c"
    using count_fillers_strings [OF assms(1)] by blast
  then show ?thesis
    using assms(2)
    by (simp add: analyzeMetrics_def pause_loop_recorded math_max_spread_def Let_def)
qed

lemma analyzeMetrics_RangeError:
  assumes "\<forall>w \<in> set words. \<exists>s. word w = Str s" and "cap < length (recorded_pauses words)"
  shows "analyzeMetrics cap (Some words) duration = Inl RangeError"
proof -
  obtain c where "count_fillers words 0 = Inr c"
    using count_fillers_strings [OF assms(1)] by blast
  moreover have "words \<noteq> []"
    using assms(2) by (auto simp: recorded_pauses_Nil)
  moreover have "recorded_pauses words \<noteq> []"
    using assms(2) by auto
  ultimately show ?thesis
    using assms(2)
    by (simp add: analyzeMetrics_def pause_loop_recorded math_max_spread_def Let_def)
qed

lemma analyzeMetrics_TypeError:
  assumes "\<not> (\<forall>w \<in> set words. \<exists>s. word w = Str s)"
  shows "analyzeMetrics cap (Some words) duration = Inl TypeError"
proof -
  have "count_fillers words 0 = Inl TypeError"
    using assms by (intro count_fillers_non_string) blast
  moreover have "words \<noteq> []"
    using assms by auto
  ultimately show ?thesis
    by (simp add: analyzeMetrics_def)
qed

text \<open>
  With a duration of positive zero the quotient \<open>words.length / duration\<close> is positive
  infinity for every non-empty sequence, and so is the rounded pace.
\<close>

lemma wordsPerMinute_zero_duration:
  assumes "analyzeMetrics cap (Some words) (Some (Fin 0)) = Inr m" and "words \<noteq> []"
  shows "wordsPerMinute m = PInf"
  using assms
  by (simp add: analyzeMetrics_Inr(1) js_div_def js_mul_def js_of_nat_def js_inf_def)

text \<open>
  C1. The specification asks for \<open>wordsPerMinute = 0\<close> whenever the duration is 0. The source
  divides without a guard: for the one-word sequence \<open>[{word: "the", start: 0, end: 0.125}]\<close>
  and duration 0 the function returns \<open>wordsPerMinute = Infinity\<close>.
\<close>

theorem analyzeMetrics_zero_duration_infinite_pace:
  "map_sum id wordsPerMinute (analyzeMetrics cap (Some [timed ''the'' 0 (1 / 8)]) (Some (Fin 0))) = Inr PInf"
  by code_simp

text \<open>
  C2. The specification asks that the value returned for the empty and the absent sequence has
  every count field present and zero. The object of the early return has the fields
  \<open>wordsPerMinute\<close>, \<open>averagePauseDuration\<close>, \<open>longestPause\<close>, \<open>fillerWordCount\<close> (all 0) and
  \<open>pacingVariation\<close> (\<open>unknown\<close>), and no \<open>pauseCount\<close> property.
\<close>

theorem analyzeMetrics_empty_lacks_pauseCount:
  "analyzeMetrics cap (Some []) duration =
     Inr \<lparr> wordsPerMinute = Fin 0, averagePauseDuration = Number (Fin 0), longestPause = Number (Fin 0),
           fillerWordCount = 0, pauseCount = None, pacingVariation = ''unknown'' \<rparr>
   \<and> analyzeMetrics cap None duration =
     Inr \<lparr> wordsPerMinute = Fin 0, averagePauseDuration = Number (Fin 0), longestPause = Number (Fin 0),
           fillerWordCount = 0, pauseCount = None, pacingVariation = ''unknown'' \<rparr>"
  by (simp add: analyzeMetrics_def)

lemma js_gt_irrefl: "\<not> js_gt x x"
  by (cases x) (simp_all add: js_gt_def)

lemma lit_02: "js_lit (1 / 5) = Fin (3602879701896397 / 18014398509481984)"
  by code_simp

lemma lit_02001: "js_lit (2001 / 10000) = Fin (3604681141747345 / 18014398509481984)"
  by code_simp

text \<open>
  C7. The pause list the loop builds is exactly the list of the gaps
  \<open>words[i].start - words[i - 1].end\<close>, \<open>1 \<le> i < words.length\<close>, that are strictly greater
  than 0.2, in order: a gap is recorded if and only if it is greater than 0.2; a sequence
  of fewer than two words records none; \<open>pauseCount\<close> is the number of these gaps. A gap
  equal to 0.2 is not recorded, the gap 0.2001 is.
\<close>

theorem pause_recognition_strict_threshold:
  "pause_loop words 1 [] =
      filter (\<lambda>g. js_gt g (js_lit (1 / 5))) (map (gap words) [1..<length words])
   \<and> (\<forall>i. 1 \<le> i \<and> i < length words \<longrightarrow>
         (gap words i \<in> set (pause_loop words 1 []) \<longleftrightarrow> js_gt (gap words i) (js_lit (1 / 5))))
   \<and> (length words < 2 \<longrightarrow> pause_loop words 1 [] = [])
   \<and> (\<forall>cap m duration. analyzeMetrics cap (Some words) duration = Inr m \<and> words \<noteq> [] \<longrightarrow>
         pauseCount m = Some (length (filter (\<lambda>g. js_gt g (js_lit (1 / 5))) (map (gap words) [1..<length words]))))
   \<and> \<not> js_gt (js_lit (1 / 5)) (js_lit (1 / 5))
   \<and> js_gt (js_lit (2001 / 10000)) (js_lit (1 / 5))"
proof -
  have eq: "pause_loop words 1 [] =
      filter (\<lambda>g. js_gt g (js_lit (1 / 5))) (map (gap words) [1..<length words])"
    using pause_loop_recorded [of words] by (simp add: recorded_pauses_def is_pause_def [abs_def])
  have mem: "\<forall>i. 1 \<le> i \<and> i < length words \<longrightarrow>
         (gap words i \<in> set (pause_loop words 1 []) \<longleftrightarrow> js_gt (gap words i) (js_lit (1 / 5)))"
    unfolding eq by auto
  have short: "length words < 2 \<longrightarrow> pause_loop words 1 [] = []"
    unfolding eq by auto
  have cnt: "\<forall>cap m duration. analyzeMetrics cap (Some words) duration = Inr m \<and> words \<noteq> [] \<longrightarrow>
         pauseCount m = Some (length (filter (\<lambda>g. js_gt g (js_lit (1 / 5))) (map (gap words) [1..<length words])))"
    using analyzeMetrics_Inr(2) [of _ words] by (auto simp: recorded_pauses_def is_pause_def [abs_def])
  have lo: "\<not> js_gt (js_lit (1 / 5)) (js_lit (1 / 5))"
    by (rule js_gt_irrefl)
  have hi: "js_gt (js_lit (2001 / 10000)) (js_lit (1 / 5))"
    by (simp add: lit_02 lit_02001 js_gt_def)
  show ?thesis using eq mem short cnt lo hi by blast
qed

lemma sample_gaps: "map (gap sample_words) [1..<length sample_words] = [Fin 0, Fin (3 / 4)]"
  by code_simp

lemma sample_metrics:
  "analyzeMetrics 65536 (Some sample_words) (Some (Fin 2)) =
     Inr \<lparr> wordsPerMinute = Fin 90, averagePauseDuration = Text ''0.75'', longestPause = Text ''0.75'',
           fillerWordCount = 0, pauseCount = Some 1, pacingVariation = ''halting'' \<rparr>"
  by code_simp

text \<open>
  The sample sequence has the gaps 0 and 0.75; only the second is recorded.
\<close>

theorem pause_recognition_strict_threshold_witness:
  "pause_loop sample_words 1 [] = [Fin (3 / 4)]
   \<and> gap sample_words 2 = Fin (3 / 4) \<and> gap sample_words 2 \<in> set (pause_loop sample_words 1 [])
   \<and> gap sample_words 1 = Fin 0 \<and> gap sample_words 1 \<notin> set (pause_loop sample_words 1 [])
   \<and> pause_loop [timed ''the'' 0 (1 / 8)] 1 [] = []
   \<and> map_sum id pauseCount (analyzeMetrics 65536 (Some sample_words) (Some (Fin 2))) = Inr (Some 1)"
proof -
  note main = pause_recognition_strict_threshold [of sample_words]
  have g: "map (gap sample_words) [1..<length sample_words] = [Fin 0, Fin (3 / 4)]"
    by (rule sample_gaps)
  have len: "length sample_words = 3" by (simp add: sample_words_def)
  have g1: "gap sample_words 1 = Fin 0" and g2: "gap sample_words 2 = Fin (3 / 4)"
    by code_simp+
  have p34: "js_gt (Fin (3 / 4)) (js_lit (1 / 5))" and p0: "\<not> js_gt (Fin 0) (js_lit (1 / 5))"
    by (simp_all add: lit_02 js_gt_def)
  have a: "pause_loop sample_words 1 [] = [Fin (3 / 4)]"
    unfolding main [THEN conjunct1] g using p34 p0 by simp
  have "1 \<le> (2::nat) \<and> 2 < length sample_words" "1 \<le> (1::nat) \<and> 1 < length sample_words"
    by (simp_all add: len)
  with main have b: "gap sample_words 2 \<in> set (pause_loop sample_words 1 [])"
    and c: "gap sample_words 1 \<notin> set (pause_loop sample_words 1 [])"
    using g1 g2 p34 p0 by metis+
  have d: "pause_loop [timed ''the'' 0 (1 / 8)] 1 [] = []"
    using pause_recognition_strict_threshold [of "[timed ''the'' 0 (1 / 8)]"] by simp
  obtain m where m: "analyzeMetrics 65536 (Some sample_words) (Some (Fin 2)) = Inr m"
    using sample_metrics by blast
  have ne: "sample_words \<noteq> []" by (simp add: sample_words_def)
  from main m ne have "pauseCount m = Some (length (filter (\<lambda>g. js_gt g (js_lit (1 / 5)))
      (map (gap sample_words) [1..<length sample_words])))"
    by blast
  then have e: "map_sum id pauseCount (analyzeMetrics 65536 (Some sample_words) (Some (Fin 2))) = Inr (Some 1)"
    unfolding g using m p34 p0 by simp
  show ?thesis using a b c d e g1 g2 by simp
qed

text \<open>
  C8. For a non-empty sequence the pacing is decided by the first test that holds:
  \<open>halting\<close> if \<open>pauseCount > 0.3 * wordCount\<close>, whatever the other test says; otherwise
  \<open>rushed\<close> if \<open>pauseCount < 0.1 * wordCount\<close> and \<open>wordsPerMinute > 150\<close>; otherwise
  \<open>steady\<close>. This holds for the tests as the source computes them, on doubles, and,
  for fewer than \<open>2^50\<close> words, for the tests read in exact arithmetic
  (\<open>3 * wordCount < 10 * pauseCount\<close> and \<open>10 * pauseCount < wordCount\<close>).
\<close>

theorem pacing_classification_first_match:
  assumes "analyzeMetrics cap (Some words) duration = Inr m" and "words \<noteq> []"
  shows "\<exists>pc. pauseCount m = Some pc
           \<and> pacingVariation m =
               (if js_gt (js_of_nat pc) (js_mul (js_of_nat (length words)) (js_lit (3 / 10))) then ''halting''
                else if js_lt (js_of_nat pc) (js_mul (js_of_nat (length words)) (js_lit (1 / 10)))
                        \<and> js_gt (wordsPerMinute m) (Fin 150) then ''rushed''
                else ''steady'')
           \<and> (length words < 2 ^ 50 \<longrightarrow>
                pacingVariation m =
                  (if 3 * length words < 10 * pc then ''halting''
                   else if 10 * pc < length words \<and> js_gt (wordsPerMinute m) (Fin 150) then ''rushed''
                   else ''steady''))"
proof -
  have n: "0 < length words" using assms(2) by simp
  show ?thesis
    using analyzeMetrics_Inr(2,3) [OF assms] classify_pacing_exact [OF n]
    by (simp add: classify_pacing_def)
qed

text \<open>The sample sequence: one pause for three words, so \<open>halting\<close>.\<close>

theorem pacing_classification_first_match_witness:
  "\<exists>m. analyzeMetrics 65536 (Some sample_words) (Some (Fin 2)) = Inr m \<and> pauseCount m = Some 1
       \<and> length sample_words = 3 \<and> pacingVariation m = ''halting''"
proof -
  obtain m where m: "analyzeMetrics 65536 (Some sample_words) (Some (Fin 2)) = Inr m"
    using sample_metrics by blast
  have ne: "sample_words \<noteq> []" and len: "length sample_words = 3"
    by (simp_all add: sample_words_def)
  have pc: "pauseCount m = Some 1" using m sample_metrics by auto
  have small: "length sample_words < 2 ^ 50" by (simp add: len)
  from pacing_classification_first_match [OF m ne]
  obtain k where k: "pauseCount m = Some k"
    and c: "length sample_words < 2 ^ 50 \<longrightarrow>
            pacingVariation m =
              (if 3 * length sample_words < 10 * k then ''halting''
               else if 10 * k < length sample_words \<and> js_gt (wordsPerMinute m) (Fin 150) then ''rushed''
               else ''steady'')"
    by blast
  have "k = 1" using k pc by simp
  then have "pacingVariation m = ''halting''" using c small by (simp add: len)
  with m pc len show ?thesis by blast
qed

lemma gap_missing_stamp:
  "start (words ! i) = None \<or> end_t (words ! (i - 1)) = None \<Longrightarrow> gap words i = NaN"
  by (auto simp: gap_def js_sub_def js_add_def)

lemma is_pause_NaN: "\<not> is_pause NaN"
  by (simp add: is_pause_def js_gt_def lit_02)

lemma fl_round_half: "fl_round False (1 / 2) = Fin (1 / 2)"
  by code_simp

lemma spaced_gap:
  assumes "0 < i" and "i < n"
  shows "gap (spaced_words n) i = Fin (1 / 2)"
proof -
  obtain j where j: "i = Suc j" using assms(1) by (cases i) auto
  have "(of_nat j :: rat) + 1 / 2 \<noteq> 0"
    using of_nat_0_le_iff [of j, where ?'a = rat] by linarith
  moreover have "(1 + of_nat j :: rat) - (of_nat j + 1 / 2) = 1 / 2" by simp
  ultimately show ?thesis
    using assms(2) j
    by (simp add: gap_def spaced_words_def timed_def js_sub_def js_add_def Let_def fl_round_half)
qed

lemma is_pause_half: "is_pause (Fin (1 / 2))"
  by (simp add: is_pause_def js_gt_def lit_02)

lemma spaced_recorded: "length (recorded_pauses (spaced_words n)) = n - 1"
proof -
  have len: "length (spaced_words n) = n" by (simp add: spaced_words_def)
  have "\<forall>g \<in> set (map (gap (spaced_words n)) [1..<n]). is_pause g"
    using spaced_gap [of _ n] is_pause_half by auto
  then have "filter is_pause (map (gap (spaced_words n)) [1..<n]) = map (gap (spaced_words n)) [1..<n]"
    by (simp only: filter_True)
  then show ?thesis
    by (simp add: recorded_pauses_def len)
qed

lemma spaced_strings: "\<forall>w \<in> set (spaced_words n). \<exists>s. word w = Str s"
  by (auto simp: spaced_words_def timed_def)

text \<open>
  C4, as amended. \<open>analyzeMetrics\<close> returns a metrics value if and only if the text of
  every word is a string and the recorded pauses are no more than the arguments the engine
  takes in one call; so it does for the absent and the empty sequence, for every duration
  (zero, NaN and absent included), whatever the time stamps are (a gap with a missing
  time stamp is NaN and is not recorded as a pause), and whenever the words are at most
  one more than that number of arguments. It throws a \<open>TypeError\<close> if and only if the
  text of some word is not a string, and a \<open>RangeError\<close>, from \<open>Math.max(...pauses)\<close>, if
  and only if all texts are strings and the recorded pauses are more than the engine
  takes. Whatever that number is, the evenly spaced sequence of two more words has string
  texts and makes the function throw.
\<close>

theorem analyzeMetrics_returns_iff:
  "((\<exists>m. analyzeMetrics cap (Some words) duration = Inr m) \<longleftrightarrow>
      (\<forall>w \<in> set words. \<exists>s. word w = Str s) \<and> length (recorded_pauses words) \<le> cap)
   \<and> (analyzeMetrics cap (Some words) duration = Inl TypeError \<longleftrightarrow>
        \<not> (\<forall>w \<in> set words. \<exists>s. word w = Str s))
   \<and> (analyzeMetrics cap (Some words) duration = Inl RangeError \<longleftrightarrow>
        (\<forall>w \<in> set words. \<exists>s. word w = Str s) \<and> cap < length (recorded_pauses words))
   \<and> length (recorded_pauses words) \<le> length words - 1
   \<and> (\<exists>m. analyzeMetrics cap None duration = Inr m)
   \<and> (\<forall>i. start (words ! i) = None \<or> end_t (words ! (i - 1)) = None \<longrightarrow> \<not> is_pause (gap words i))
   \<and> (\<forall>w \<in> set (spaced_words (cap + 2)). \<exists>s. word w = Str s)
   \<and> analyzeMetrics cap (Some (spaced_words (cap + 2))) duration = Inl RangeError"
proof -
  let ?strs = "\<forall>w \<in> set words. \<exists>s. word w = Str s"
  let ?r = "analyzeMetrics cap (Some words) duration"
  consider (ty) "\<not> ?strs" | (ok) "?strs" "length (recorded_pauses words) \<le> cap"
    | (rg) "?strs" "cap < length (recorded_pauses words)"
    by linarith
  then have cases: "((\<exists>m. ?r = Inr m) \<longleftrightarrow> ?strs \<and> length (recorded_pauses words) \<le> cap)
      \<and> (?r = Inl TypeError \<longleftrightarrow> \<not> ?strs)
      \<and> (?r = Inl RangeError \<longleftrightarrow> ?strs \<and> cap < length (recorded_pauses words))"
  proof cases
    case ty
    then have "?r = Inl TypeError" by (rule analyzeMetrics_TypeError)
    with ty show ?thesis by simp
  next
    case ok
    then obtain m where "?r = Inr m" using analyzeMetrics_returns by blast
    with ok show ?thesis by simp
  next
    case rg
    then have "?r = Inl RangeError" by (rule analyzeMetrics_RangeError)
    with rg show ?thesis by simp
  qed
  have absent: "\<exists>m. analyzeMetrics cap None duration = Inr m"
    by (simp add: analyzeMetrics_def)
  have stamps: "\<forall>i. start (words ! i) = None \<or> end_t (words ! (i - 1)) = None \<longrightarrow> \<not> is_pause (gap words i)"
    using gap_missing_stamp is_pause_NaN by metis
  have "cap < length (recorded_pauses (spaced_words (cap + 2)))"
    by (simp add: spaced_recorded)
  then have spaced: "analyzeMetrics cap (Some (spaced_words (cap + 2))) duration = Inl RangeError"
    using spaced_strings by (rule analyzeMetrics_RangeError [rotated])
  show ?thesis
    using cases length_recorded_pauses [of words] absent stamps spaced_strings [of "cap + 2"] spaced
    by blast
qed

text \<open>
  C4 as stated fails: for a word without text, \<open>word.word.toLowerCase()\<close> throws a
  \<open>TypeError\<close>.
\<close>

theorem analyzeMetrics_throws_on_missing_text:
  "analyzeMetrics 65536 (Some textless_words) (Some (Fin 1)) = Inl TypeError"
  by (simp add: analyzeMetrics_def textless_words_def)

text \<open>
  Two words with texts and no time stamps, and no duration; and, for an engine that takes
  65536 arguments, the evenly spaced sequence of 65538 words.
\<close>

theorem analyzeMetrics_returns_iff_witness:
  "(\<exists>m. analyzeMetrics 65536 (Some untimed_words) None = Inr m \<and> pauseCount m = Some 0 \<and> wordsPerMinute m = NaN)
   \<and> \<not> is_pause (gap untimed_words 1)
   \<and> length (recorded_pauses untimed_words) = 0
   \<and> analyzeMetrics 65536 (Some (spaced_words 65538)) (Some (Fin 2)) = Inl RangeError
   \<and> length (recorded_pauses (spaced_words 65538)) = 65537"
proof -
  have strs: "\<forall>w \<in> set untimed_words. \<exists>s. word w = Str s"
    by (simp add: untimed_words_def)
  note main = analyzeMetrics_returns_iff [of 65536 untimed_words None]
  have st: "start (untimed_words ! 1) = None" by (simp add: untimed_words_def)
  with main have np: "\<not> is_pause (gap untimed_words 1)" by blast
  have r: "recorded_pauses untimed_words = []"
    using np by (simp add: recorded_pauses_def untimed_words_def)
  then have "length (recorded_pauses untimed_words) \<le> 65536" by simp
  with main strs obtain m where m: "analyzeMetrics 65536 (Some untimed_words) None = Inr m" by blast
  have ne: "untimed_words \<noteq> []" by (simp add: untimed_words_def)
  have "pauseCount m = Some 0"
    using analyzeMetrics_Inr(2) [OF m ne] r by simp
  moreover have "wordsPerMinute m = NaN"
    using analyzeMetrics_Inr(1) [OF m ne] by (simp add: js_div_def js_mul_def)
  moreover have "analyzeMetrics 65536 (Some (spaced_words 65538)) (Some (Fin 2)) = Inl RangeError"
    using analyzeMetrics_returns_iff [of 65536 _ "Some (Fin 2)"] by simp
  moreover have "length (recorded_pauses (spaced_words 65538)) = 65537"
    by (simp add: spaced_recorded)
  ultimately show ?thesis using m np r by auto
qed

lemma js_lt_trans: "js_lt a b \<Longrightarrow> js_lt b c \<Longrightarrow> js_lt a c"
  by (cases a; cases b; cases c) simp_all

lemma js_lt_total: "a \<noteq> NaN \<Longrightarrow> b \<noteq> NaN \<Longrightarrow> \<not> js_lt a b \<Longrightarrow> js_lt c b \<Longrightarrow> js_lt c a"
  by (cases a; cases b; cases c) simp_all

lemma js_lt_NZero: "js_lt r NZero = js_lt r (Fin 0)"
  by (cases r) simp_all

lemma js_lt_irrefl: "\<not> js_lt a a"
  by (cases a) simp_all

lemma math_max_from_not_NaN:
  "NaN \<notin> set xs \<Longrightarrow> h \<noteq> NaN \<Longrightarrow> math_max_from h xs \<noteq> NaN"
  by (induction xs arbitrary: h) auto

lemma math_max_from_mem:
  "NaN \<notin> set xs \<Longrightarrow> math_max_from h xs = h \<or> math_max_from h xs \<in> set xs"
proof (induction xs arbitrary: h)
  case Nil
  then show ?case by simp
next
  case (Cons x xs)
  then have nx: "NaN \<notin> set xs" by simp
  show ?case
    using Cons.IH [OF nx, of "Fin 0"] Cons.IH [OF nx, of x] Cons.IH [OF nx, of h] Cons.prems
    by auto
qed

lemma math_max_from_upper:
  "NaN \<notin> set xs \<Longrightarrow> h \<noteq> NaN \<Longrightarrow>
     \<not> js_lt (math_max_from h xs) h \<and> (\<forall>x \<in> set xs. \<not> js_lt (math_max_from h xs) x)"
proof (induction xs arbitrary: h)
  case Nil
  then show ?case by (simp add: js_lt_irrefl)
next
  case (Cons x xs)
  then have nx: "NaN \<notin> set xs" and x: "x \<noteq> NaN" by auto
  show ?case
  proof (cases "x = Fin 0 \<and> h = NZero")
    case True
    then show ?thesis
      using Cons.IH [OF nx, of "Fin 0"] x by (simp add: js_lt_NZero)
  next
    case False
    show ?thesis
    proof (cases "js_gt x h")
      case True
      then have hx: "js_lt h x" by (simp add: js_gt_def)
      have r: "math_max_from h (x # xs) = math_max_from x xs"
        using False True x by auto
      show ?thesis
        unfolding r using Cons.IH [OF nx x] hx js_lt_trans by auto
    next
      case ng: False
      then have hx: "\<not> js_lt h x" by (simp add: js_gt_def)
      have r: "math_max_from h (x # xs) = math_max_from h xs"
        using False ng x by auto
      show ?thesis
        unfolding r using Cons.IH [OF nx Cons.prems(2)] hx js_lt_total [OF Cons.prems(2) x hx] by auto
    qed
  qed
qed

lemma is_pause_props: "is_pause p \<Longrightarrow> p \<noteq> NaN \<and> js_lt NInf p"
  by (cases p) (simp_all add: is_pause_def js_gt_def lit_02)

lemma math_max_pauses:
  assumes "\<forall>p \<in> set ps. is_pause p" and "ps \<noteq> []"
  shows "math_max ps \<in> set ps" and "\<forall>p \<in> set ps. \<not> js_lt (math_max ps) p"
proof -
  have nn: "NaN \<notin> set ps" using assms(1) is_pause_props by blast
  have up: "\<forall>p \<in> set ps. \<not> js_lt (math_max ps) p"
    using math_max_from_upper [OF nn, of NInf] by (simp add: math_max_def)
  obtain p where p: "p \<in> set ps" using assms(2) by (cases ps) auto
  have "math_max ps \<noteq> NInf"
    using up p assms(1) is_pause_props by metis
  then show "math_max ps \<in> set ps"
    using math_max_from_mem [OF nn, of NInf] by (simp add: math_max_def)
  show "\<forall>p \<in> set ps. \<not> js_lt (math_max ps) p" by (rule up)
qed

lemma recorded_pauses_are_pauses: "\<forall>p \<in> set (recorded_pauses words). is_pause p"
  by (simp add: recorded_pauses_def)

lemma digit_char_0: "digit_char 0 = CHR ''0''"
  by code_simp

lemma digits_of_small: "n < 10 \<Longrightarrow> digits_of n = [digit_char n]"
  by (subst digits_of.simps) simp

lemma digits_of_big: "10 \<le> n \<Longrightarrow> digits_of n = digits_of (n div 10) @ [digit_char (n mod 10)]"
  by (subst digits_of.simps) simp

lemma digits_of_nonempty: "digits_of n \<noteq> []"
  by (subst digits_of.simps) simp

lemma toFixed2_decimal2:
  assumes "0 \<le> q" and "q < 1000000000000000000000"
  shows "toFixed2 (Fin q) = Text (decimal2 q)"
proof -
  define n where "n = nat \<lfloor>q * 100 + 1 / 2\<rfloor>"
  have aq: "\<bar>q\<bar> = q" using assms(1) by simp
  consider "n < 10" | "10 \<le> n" "n < 100" | "100 \<le> n" by linarith
  then have "(let m = digits_of n; m' = replicate (3 - length m) (CHR ''0'') @ m; k = length m'
              in take (k - 2) m' @ ''.'' @ drop (k - 2) m')
             = digits_of (n div 100) @ ''.'' @ [digit_char (n div 10 mod 10), digit_char (n mod 10)]"
  proof cases
    case 1
    then show ?thesis
      by (simp add: digits_of_small digit_char_0 [symmetric] numeral_3_eq_3)
  next
    case 2
    then have d: "digits_of n = [digit_char (n div 10), digit_char (n mod 10)]"
      by (simp add: digits_of_big digits_of_small)
    from 2 have "n div 100 = 0" "n div 10 mod 10 = n div 10" by simp_all
    then show ?thesis
      by (simp add: d digits_of_small digit_char_0 [symmetric] numeral_3_eq_3)
  next
    case 3
    then have "10 \<le> n div 10" by simp
    moreover have "n div 10 div 10 = n div 100"
      by (simp add: div_mult2_eq [symmetric])
    ultimately have d: "digits_of n = digits_of (n div 100) @ [digit_char (n div 10 mod 10), digit_char (n mod 10)]"
      using 3 by (simp add: digits_of_big)
    have "1 \<le> length (digits_of (n div 100))"
      using digits_of_nonempty [of "n div 100"] by (cases "digits_of (n div 100)") auto
    then show ?thesis
      by (simp add: d Let_def)
  qed
  then show ?thesis
    using assms by (simp add: aq decimal2_def n_def Let_def)
qed

lemma round_half_even_nonneg: "0 \<le> q \<Longrightarrow> 0 \<le> round_half_even q"
  by (auto simp: round_half_even_def Let_def)

lemma fl_round_non_negative: "0 \<le> a \<Longrightarrow> non_negative (fl_round False a)"
proof -
  assume a: "0 \<le> a"
  have "0 \<le> a / pow2 e" for e
    using a pow2_positive [of e] by simp
  then have "0 \<le> (of_int (round_half_even (a / pow2 e)) :: rat) * pow2 e" for e
    using round_half_even_nonneg [of "a / pow2 e"] pow2_positive [of e] by simp
  then show ?thesis
    by (simp add: fl_round_def Let_def non_negative_def js_zero_def js_inf_def not_less)
qed

lemma non_negative_cases: "non_negative x \<longleftrightarrow> x = PInf \<or> (\<exists>q. 0 \<le> q \<and> x = Fin q)"
  by (cases x) (auto simp: non_negative_def)

lemma js_add_non_negative:
  assumes "non_negative x" and "non_negative y"
  shows "non_negative (js_add x y)"
proof -
  consider "x = PInf" | "y = PInf" | q r where "x = Fin q" "y = Fin r" "0 \<le> q" "0 \<le> r"
    using assms by (auto simp: non_negative_cases)
  then show ?thesis
  proof cases
    case 1
    then show ?thesis using assms(2) by (auto simp: js_add_def non_negative_cases)
  next
    case 2
    then show ?thesis using assms(1) by (auto simp: js_add_def non_negative_cases)
  next
    case 3
    then have "0 \<le> q + r" by simp
    then show ?thesis
      using 3 fl_round_non_negative [of "q + r"]
      by (auto simp: js_add_def Let_def non_negative_def)
  qed
qed

lemma foldl_js_add_non_negative:
  "non_negative a \<Longrightarrow> \<forall>x \<in> set xs. non_negative x \<Longrightarrow> non_negative (foldl js_add a xs)"
  by (induction xs arbitrary: a) (simp_all add: js_add_non_negative)

lemma js_div_non_negative:
  assumes "non_negative x" and "0 < n"
  shows "non_negative (js_div x (js_of_nat n))"
proof -
  have n: "(0::rat) < of_nat n" using assms(2) by simp
  consider "x = PInf" | q where "x = Fin q" "0 \<le> q"
    using assms(1) by (auto simp: non_negative_cases)
  then show ?thesis
  proof cases
    case 1
    then show ?thesis
      by (simp add: js_div_def js_of_nat_def js_inf_def non_negative_def)
  next
    case 2
    then have "0 \<le> \<bar>q\<bar> / \<bar>of_nat n\<bar>" by simp
    then show ?thesis
      using 2 n assms(2) fl_round_non_negative [of "\<bar>q\<bar> / \<bar>of_nat n\<bar>"]
      by (simp add: js_div_def js_of_nat_def not_less)
  qed
qed

lemma is_pause_non_negative: "is_pause p \<Longrightarrow> non_negative p"
  by (cases p) (auto simp: is_pause_def js_gt_def lit_02 non_negative_def)

lemma js_mean_non_negative:
  assumes "\<forall>p \<in> set ps. is_pause p" and "ps \<noteq> []"
  shows "non_negative (js_mean ps)"
proof -
  have "non_negative (Fin 0)" by (simp add: non_negative_def)
  moreover have "\<forall>p \<in> set ps. non_negative p"
    using assms(1) is_pause_non_negative by blast
  ultimately have "non_negative (foldl js_add (Fin 0) ps)"
    by (rule foldl_js_add_non_negative)
  moreover have "0 < length ps" using assms(2) by simp
  ultimately show ?thesis
    unfolding js_mean_def by (rule js_div_non_negative)
qed

lemma toFixed2_not_Number: "toFixed2 x \<noteq> Number y"
  by (cases x) (simp_all add: Let_def)

text \<open>
  C5, as amended. For a sequence whose words all have a string text: when no pause is
  recorded, \<open>analyzeMetrics\<close> returns both statistics as the number 0; when pauses are
  recorded, and they are no more than the arguments the engine takes in one call, it
  returns \<open>averagePauseDuration\<close> as the string \<open>toFixed(2)\<close> gives for the mean of the
  recorded pauses (a non-negative number) and \<open>longestPause\<close> as the string \<open>toFixed(2)\<close>
  gives for their maximum, a recorded pause that no recorded pause exceeds, and neither
  is a number; when they are more than the engine takes, it returns nothing and throws a
  \<open>RangeError\<close>. For a non-negative number below \<open>10^21\<close> the string is the number rounded
  to two decimals.
\<close>

theorem pause_aggregates_are_fixed_strings:
  assumes "\<forall>w \<in> set words. \<exists>s. word w = Str s"
  shows "(recorded_pauses words = [] \<longrightarrow>
            (\<exists>m. analyzeMetrics cap (Some words) duration = Inr m
               \<and> averagePauseDuration m = Number (Fin 0) \<and> longestPause m = Number (Fin 0)))
       \<and> (recorded_pauses words \<noteq> [] \<and> length (recorded_pauses words) \<le> cap \<longrightarrow>
            (\<exists>m. analyzeMetrics cap (Some words) duration = Inr m
               \<and> averagePauseDuration m = toFixed2 (js_mean (recorded_pauses words))
               \<and> longestPause m = toFixed2 (math_max (recorded_pauses words))
               \<and> (\<forall>x. averagePauseDuration m \<noteq> Number x \<and> longestPause m \<noteq> Number x))
          \<and> non_negative (js_mean (recorded_pauses words))
          \<and> math_max (recorded_pauses words) \<in> set (recorded_pauses words)
          \<and> (\<forall>p \<in> set (recorded_pauses words). \<not> js_lt (math_max (recorded_pauses words)) p))
       \<and> (cap < length (recorded_pauses words) \<longrightarrow>
            analyzeMetrics cap (Some words) duration = Inl RangeError)
       \<and> (\<forall>q. 0 \<le> q \<and> q < 1000000000000000000000 \<longrightarrow> toFixed2 (Fin q) = Text (decimal2 q))"
proof -
  note ps = recorded_pauses_are_pauses [of words]
  have none: "recorded_pauses words = [] \<longrightarrow>
            (\<exists>m. analyzeMetrics cap (Some words) duration = Inr m
               \<and> averagePauseDuration m = Number (Fin 0) \<and> longestPause m = Number (Fin 0))"
  proof
    assume r: "recorded_pauses words = []"
    then obtain m where m: "analyzeMetrics cap (Some words) duration = Inr m"
      using analyzeMetrics_returns [OF assms, of cap duration] by auto
    show "\<exists>m. analyzeMetrics cap (Some words) duration = Inr m
               \<and> averagePauseDuration m = Number (Fin 0) \<and> longestPause m = Number (Fin 0)"
    proof (cases "words = []")
      case True
      then show ?thesis by (simp add: analyzeMetrics_def)
    next
      case False
      then show ?thesis
        using analyzeMetrics_Inr(4,5) [OF m False] m r by simp
    qed
  qed
  have some: "recorded_pauses words \<noteq> [] \<and> length (recorded_pauses words) \<le> cap \<longrightarrow>
            (\<exists>m. analyzeMetrics cap (Some words) duration = Inr m
               \<and> averagePauseDuration m = toFixed2 (js_mean (recorded_pauses words))
               \<and> longestPause m = toFixed2 (math_max (recorded_pauses words))
               \<and> (\<forall>x. averagePauseDuration m \<noteq> Number x \<and> longestPause m \<noteq> Number x))
          \<and> non_negative (js_mean (recorded_pauses words))
          \<and> math_max (recorded_pauses words) \<in> set (recorded_pauses words)
          \<and> (\<forall>p \<in> set (recorded_pauses words). \<not> js_lt (math_max (recorded_pauses words)) p)"
  proof
    assume h: "recorded_pauses words \<noteq> [] \<and> length (recorded_pauses words) \<le> cap"
    then have ne: "words \<noteq> []" by (auto simp: recorded_pauses_Nil)
    from h obtain m where m: "analyzeMetrics cap (Some words) duration = Inr m"
      using analyzeMetrics_returns [OF assms, of cap duration] by auto
    have "averagePauseDuration m = toFixed2 (js_mean (recorded_pauses words))"
      and "longestPause m = toFixed2 (math_max (recorded_pauses words))"
      using analyzeMetrics_Inr(4,5) [OF m ne] h by (simp_all add: js_mean_def)
    then have "\<exists>m. analyzeMetrics cap (Some words) duration = Inr m
               \<and> averagePauseDuration m = toFixed2 (js_mean (recorded_pauses words))
               \<and> longestPause m = toFixed2 (math_max (recorded_pauses words))
               \<and> (\<forall>x. averagePauseDuration m \<noteq> Number x \<and> longestPause m \<noteq> Number x)"
      using m toFixed2_not_Number by auto
    then show "(\<exists>m. analyzeMetrics cap (Some words) duration = Inr m
               \<and> averagePauseDuration m = toFixed2 (js_mean (recorded_pauses words))
               \<and> longestPause m = toFixed2 (math_max (recorded_pauses words))
               \<and> (\<forall>x. averagePauseDuration m \<noteq> Number x \<and> longestPause m \<noteq> Number x))
          \<and> non_negative (js_mean (recorded_pauses words))
          \<and> math_max (recorded_pauses words) \<in> set (recorded_pauses words)
          \<and> (\<forall>p \<in> set (recorded_pauses words). \<not> js_lt (math_max (recorded_pauses words)) p)"
      using h math_max_pauses [OF ps] js_mean_non_negative [OF ps] by blast
  qed
  have many: "cap < length (recorded_pauses words) \<longrightarrow>
            analyzeMetrics cap (Some words) duration = Inl RangeError"
    using analyzeMetrics_RangeError [OF assms] by blast
  have fmt: "\<forall>q. 0 \<le> q \<and> q < 1000000000000000000000 \<longrightarrow> toFixed2 (Fin q) = Text (decimal2 q)"
    using toFixed2_decimal2 by blast
  show ?thesis using none some many fmt by blast
qed

lemma sample_recorded: "recorded_pauses sample_words = [Fin (3 / 4)]"
  by code_simp

lemma paused_recorded: "recorded_pauses paused_words = [Fin (3 / 4), Fin (1 / 4)]"
  by code_simp

text \<open>
  C5 as stated fails: the sample sequence has the single pause 0.75, and both statistics
  are the string \<open>0.75\<close>, not a number.
\<close>

theorem pause_aggregates_not_numbers:
  "recorded_pauses sample_words = [Fin (3 / 4)]
   \<and> map_sum id averagePauseDuration (analyzeMetrics 65536 (Some sample_words) (Some (Fin 2))) = Inr (Text ''0.75'')
   \<and> map_sum id longestPause (analyzeMetrics 65536 (Some sample_words) (Some (Fin 2))) = Inr (Text ''0.75'')"
  by (simp add: sample_recorded sample_metrics)

text \<open>
  For an engine that takes 65536 arguments: the sequence with the two pauses 0.75 and
  0.25 (mean \<open>0.50\<close>, maximum \<open>0.75\<close>), the sequence without time stamps (no pause), and
  the evenly spaced sequence of 65538 words (65537 pauses).
\<close>

theorem pause_aggregates_are_fixed_strings_witness:
  "recorded_pauses paused_words = [Fin (3 / 4), Fin (1 / 4)]
   \<and> (\<exists>m. analyzeMetrics 65536 (Some paused_words) (Some (Fin 2)) = Inr m
          \<and> averagePauseDuration m = Text ''0.50'' \<and> longestPause m = Text ''0.75'')
   \<and> js_mean [Fin (3 / 4), Fin (1 / 4)] = Fin (1 / 2)
   \<and> math_max [Fin (3 / 4), Fin (1 / 4)] = Fin (3 / 4)
   \<and> recorded_pauses untimed_words = []
   \<and> (\<exists>m. analyzeMetrics 65536 (Some untimed_words) (Some (Fin 2)) = Inr m
          \<and> averagePauseDuration m = Number (Fin 0) \<and> longestPause m = Number (Fin 0))
   \<and> length (recorded_pauses (spaced_words 65538)) = 65537
   \<and> analyzeMetrics 65536 (Some (spaced_words 65538)) (Some (Fin 2)) = Inl RangeError"
proof -
  have strs: "\<forall>w \<in> set paused_words. \<exists>s. word w = Str s"
    by (simp add: paused_words_def sample_words_def timed_def)
  note main = pause_aggregates_are_fixed_strings [OF strs, of 65536 "Some (Fin 2)"]
  have mean: "js_mean [Fin (3 / 4), Fin (1 / 4)] = Fin (1 / 2)"
    and mx: "math_max [Fin (3 / 4), Fin (1 / 4)] = Fin (3 / 4)"
    by code_simp+
  have "recorded_pauses paused_words \<noteq> [] \<and> length (recorded_pauses paused_words) \<le> 65536"
    by (simp add: paused_recorded)
  with main obtain m where m: "analyzeMetrics 65536 (Some paused_words) (Some (Fin 2)) = Inr m"
    and a: "averagePauseDuration m = toFixed2 (Fin (1 / 2))"
    and l: "longestPause m = toFixed2 (Fin (3 / 4))"
    unfolding paused_recorded mean mx by blast
  have "(0::rat) \<le> 1 / 2 \<and> (1 / 2 :: rat) < 1000000000000000000000"
    and "(0::rat) \<le> 3 / 4 \<and> (3 / 4 :: rat) < 1000000000000000000000" by simp_all
  with main have "toFixed2 (Fin (1 / 2)) = Text (decimal2 (1 / 2))"
    and "toFixed2 (Fin (3 / 4)) = Text (decimal2 (3 / 4))" by blast+
  moreover have "decimal2 (1 / 2) = ''0.50''" and "decimal2 (3 / 4) = ''0.75''" by code_simp+
  ultimately have f: "toFixed2 (Fin (1 / 2)) = Text ''0.50''" "toFixed2 (Fin (3 / 4)) = Text ''0.75''"
    by simp_all
  have two: "\<exists>m. analyzeMetrics 65536 (Some paused_words) (Some (Fin 2)) = Inr m
          \<and> averagePauseDuration m = Text ''0.50'' \<and> longestPause m = Text ''0.75''"
    using m a l f by auto
  have strs': "\<forall>w \<in> set untimed_words. \<exists>s. word w = Str s"
    by (simp add: untimed_words_def)
  have r': "recorded_pauses untimed_words = []" by code_simp
  have none: "\<exists>m. analyzeMetrics 65536 (Some untimed_words) (Some (Fin 2)) = Inr m
          \<and> averagePauseDuration m = Number (Fin 0) \<and> longestPause m = Number (Fin 0)"
    using pause_aggregates_are_fixed_strings [OF strs', of 65536 "Some (Fin 2)"] r' by blast
  have len: "length (recorded_pauses (spaced_words 65538)) = 65537"
    by (simp add: spaced_recorded)
  then have "(65536::nat) < length (recorded_pauses (spaced_words 65538))" by simp
  then have many: "analyzeMetrics 65536 (Some (spaced_words 65538)) (Some (Fin 2)) = Inl RangeError"
    using pause_aggregates_are_fixed_strings [OF spaced_strings, of 65538 65536 "Some (Fin 2)"] by blast
  show ?thesis
    using two none many len mean mx r' by (simp add: paused_recorded)
qed
section \<open>Properties of the request handler\<close>

lemma handler_dispatched:
  assumes "req_method req = ''POST''" and "prepare e req = Inr (Inr d)"
    and "chat e (d_prompt d) = Inr content" and "response_content content = Inr responseContent"
  shows "handler e req =
           \<lparr> res_status = 200, res_headers = cors_headers,
             res_body = ResultBody \<lparr> ieltsScores = parse_scores e responseContent,
                                     transcript = d_transcript d, metrics = d_metrics d,
                                     question = d_question d, part = d_part d \<rparr> \<rparr>"
  using assms by (simp add: handler_def complete_def)

lemma response_content_blank:
  "content = Undefined \<or> content = Null \<or> (\<exists>s. content = Str s \<and> trim s = [])
     \<Longrightarrow> response_content content = Inr ''{}''"
  by (auto simp: response_content_def)

text \<open>
  C6. A request, of either branch, that has reached the text-generation call, whose
  completion has a content that is read as the text \<open>responseContent\<close>: when
  \<open>JSON.parse\<close> fails on that text, the response has status 200 and carries the fallback
  document, whose four sub-scores are 0 and whose feedback has \<open>error: true\<close>.
\<close>

theorem parse_failure_yields_fallback:
  assumes "req_method req = ''POST''" and "prepare e req = Inr (Inr d)"
    and "chat e (d_prompt d) = Inr content" and "response_content content = Inr responseContent"
    and "json_parse e responseContent = None"
  shows "handler e req =
           \<lparr> res_status = 200, res_headers = cors_headers,
             res_body = ResultBody \<lparr> ieltsScores = fallback_scores,
                                     transcript = d_transcript d, metrics = d_metrics d,
                                     question = d_question d, part = d_part d \<rparr> \<rparr>
       \<and> get_prop (get_prop fallback_scores ''scores'') ''fluencyCoherence'' = Num (Fin 0)
       \<and> get_prop (get_prop fallback_scores ''scores'') ''lexicalResource'' = Num (Fin 0)
       \<and> get_prop (get_prop fallback_scores ''scores'') ''grammaticalRange'' = Num (Fin 0)
       \<and> get_prop (get_prop fallback_scores ''scores'') ''pronunciation'' = Num (Fin 0)
       \<and> get_prop (get_prop fallback_scores ''feedback'') ''error'' = Bool True"
proof -
  have "parse_scores e responseContent = fallback_scores"
    using assms(5) by (simp add: parse_scores_def)
  then have "handler e req =
           \<lparr> res_status = 200, res_headers = cors_headers,
             res_body = ResultBody \<lparr> ieltsScores = fallback_scores,
                                     transcript = d_transcript d, metrics = d_metrics d,
                                     question = d_question d, part = d_part d \<rparr> \<rparr>"
    using handler_dispatched [OF assms(1-4)] by simp
  then show ?thesis
    by (simp add: fallback_scores_def get_prop_def)
qed

lemma text_request_prepared:
  "prepare e text_request =
     Inr (Inr \<lparr> d_prompt = TextPrompt (Str ''1'') (Str ''General IELTS Question'') ''I like tea'',
                d_transcript = ''I like tea'', d_metrics = None,
                d_question = Str ''General IELTS Question'', d_part = Str ''1'' \<rparr>)"
  by code_simp

lemma audio_request_prepared:
  "prepare (env_replying content) (audio_request ''2'') =
     Inr (Inr \<lparr> d_prompt = AudioPrompt ''1'' ''IELTS Speaking Question''
                   \<lparr> wordsPerMinute = Fin 90, averagePauseDuration = Text ''0.75'',
                     longestPause = Text ''0.75'', fillerWordCount = 0, pauseCount = Some 1,
                     pacingVariation = ''halting'' \<rparr> 3 (Fin 2) ''the quick brown'',
                d_transcript = ''the quick brown'',
                d_metrics = Some \<lparr> wordsPerMinute = Fin 90, averagePauseDuration = Text ''0.75'',
                     longestPause = Text ''0.75'', fillerWordCount = 0, pauseCount = Some 1,
                     pacingVariation = ''halting'' \<rparr>,
                d_question = Str ''IELTS Speaking Question'', d_part = Str ''1'' \<rparr>)"
  by code_simp

text \<open>A truncated document as the completion, for the sample text and audio requests.\<close>

theorem parse_failure_yields_fallback_witness:
  "res_status (handler (env_replying (Str ''{ truncated'')) text_request) = 200
   \<and> response_scores (handler (env_replying (Str ''{ truncated'')) text_request) = Some fallback_scores
   \<and> res_status (handler (env_replying (Str ''{ truncated'')) (audio_request ''2'')) = 200
   \<and> response_scores (handler (env_replying (Str ''{ truncated'')) (audio_request ''2'')) = Some fallback_scores"
proof -
  let ?e = "env_replying (Str ''{ truncated'')"
  have c: "chat ?e p = Inr (Str ''{ truncated'')" for p
    by (simp add: env_replying_def)
  have rc: "response_content (Str ''{ truncated'') = Inr ''{ truncated''"
    by code_simp
  have np: "json_parse ?e ''{ truncated'' = None"
    by (simp add: env_replying_def)
  have m1: "req_method text_request = ''POST''" and m2: "req_method (audio_request ''2'') = ''POST''"
    by (simp_all add: text_request_def audio_request_def)
  note t = parse_failure_yields_fallback [OF m1 text_request_prepared c rc np, THEN conjunct1]
  note a = parse_failure_yields_fallback [OF m2 audio_request_prepared c rc np, THEN conjunct1]
  show ?thesis
    unfolding t a by (simp add: response_scores_def)
qed

text \<open>
  C10. When the content of the completion is missing, null or a blank string, the text
  given to \<open>JSON.parse\<close> is \<open>{}\<close>; as \<open>JSON.parse\<close> reads that text as the empty object, a
  request that has reached the text-generation call is answered with status 200 and the
  empty object as \<open>ieltsScores\<close>, which is not the fallback document.
\<close>

theorem empty_content_yields_empty_object:
  assumes "req_method req = ''POST''" and "prepare e req = Inr (Inr d)"
    and "chat e (d_prompt d) = Inr content"
    and "content = Undefined \<or> content = Null \<or> (\<exists>s. content = Str s \<and> trim s = [])"
    and "json_parse e ''{}'' = Some (Obj [])"
  shows "response_content content = Inr ''{}''
       \<and> handler e req =
           \<lparr> res_status = 200, res_headers = cors_headers,
             res_body = ResultBody \<lparr> ieltsScores = Obj [],
                                     transcript = d_transcript d, metrics = d_metrics d,
                                     question = d_question d, part = d_part d \<rparr> \<rparr>
       \<and> Obj [] \<noteq> fallback_scores"
proof -
  have rc: "response_content content = Inr ''{}''"
    using assms(4) by (rule response_content_blank)
  have "parse_scores e ''{}'' = Obj []"
    using assms(5) by (simp add: parse_scores_def)
  then show ?thesis
    using rc handler_dispatched [OF assms(1-3) rc] by (simp add: fallback_scores_def)
qed

text \<open>A blank completion for the text request, a missing one for the audio request.\<close>

theorem empty_content_yields_empty_object_witness:
  "res_status (handler (env_replying (Str '' '')) text_request) = 200
   \<and> response_scores (handler (env_replying (Str '' '')) text_request) = Some (Obj [])
   \<and> res_status (handler (env_replying Undefined) (audio_request ''2'')) = 200
   \<and> response_scores (handler (env_replying Undefined) (audio_request ''2'')) = Some (Obj [])"
proof -
  have c: "chat (env_replying v) p = Inr v" for v p
    by (simp add: env_replying_def)
  have jp: "json_parse (env_replying v) ''{}'' = Some (Obj [])" for v
    by (simp add: env_replying_def)
  have m1: "req_method text_request = ''POST''" and m2: "req_method (audio_request ''2'') = ''POST''"
    by (simp_all add: text_request_def audio_request_def)
  have b1: "Str '' '' = Undefined \<or> Str '' '' = Null \<or> (\<exists>s. Str '' '' = Str s \<and> trim s = [])"
  proof -
    have "trim '' '' = []" by code_simp
    then show ?thesis by simp
  qed
  have b2: "Undefined = Undefined \<or> Undefined = Null \<or> (\<exists>s. Undefined = Str s \<and> trim s = [])"
    by simp
  note t = empty_content_yields_empty_object [OF m1 text_request_prepared c b1 jp, THEN conjunct2, THEN conjunct1]
  note a = empty_content_yields_empty_object [OF m2 audio_request_prepared c b2 jp, THEN conjunct2, THEN conjunct1]
  show ?thesis
    unfolding t a by (simp add: response_scores_def)
qed

text \<open>
  C3, as amended. The duration the audio branch passes to \<open>analyzeMetrics\<close> is
  \<open>audio_duration\<close> of the \<open>duration\<close> form field and the reported duration: the number
  \<open>parseFloat\<close> reads from the field when the field is present, not empty and starts
  (after white space) with a decimal literal; when the field is missing or empty, the
  reported duration if it is present and neither zero nor NaN, and 0 otherwise.
\<close>

theorem audio_duration_source:
  "(field = Some s \<and> s \<noteq> [] \<and> parseFloat s \<noteq> NaN \<longrightarrow> audio_duration field reported = parseFloat s)
   \<and> ((field = None \<or> field = Some []) \<and> reported = Some x \<and> num_truthy x
         \<longrightarrow> audio_duration field reported = x)
   \<and> ((field = None \<or> field = Some []) \<and> (reported = None \<or> (\<exists>y. reported = Some y \<and> \<not> num_truthy y))
         \<longrightarrow> audio_duration field reported = Fin 0)
   \<and> (parseMultipartForm (content_type req) (raw_body req) = Inr form
        \<and> form_files form ''audio'' = Some audioFile \<and> transcribe e audioFile = Inr tr
        \<and> prepare_audio e req = Inr (Inr d)
         \<longrightarrow> (\<exists>m. d_metrics d = Some m
                \<and> analyzeMetrics (max_arguments e) (Some (case t_words tr of None \<Rightarrow> [] | Some ws \<Rightarrow> ws))
                      (Some (audio_duration (form_fields form ''duration'') (t_duration tr))) = Inr m))"
  by (auto simp: audio_duration_def reported_or_zero_def prepare_audio_def Let_def split: sum.splits)

text \<open>
  C3 as stated fails: for the field \<open>abc\<close> and a reported duration of 5 seconds the
  duration is NaN, not 5, and so is the pace in the response.
\<close>

theorem unparseable_duration_is_NaN:
  "audio_duration (Some ''abc'') (Some (Fin 5)) = NaN
   \<and> map_option wordsPerMinute (response_metrics (handler (env_replying (Str ''{}'')) (audio_request ''abc''))) = Some NaN"
  by code_simp

text \<open>The sample audio request with the field \<open>2\<close> and a reported duration of 5.\<close>

theorem audio_duration_source_witness:
  "audio_duration (Some ''2'') (Some (Fin 5)) = Fin 2
   \<and> audio_duration None (Some (Fin 5)) = Fin 5
   \<and> audio_duration (Some []) None = Fin 0
   \<and> (\<exists>d m. prepare_audio (env_replying Undefined) (audio_request ''2'') = Inr (Inr d)
          \<and> d_metrics d = Some m \<and> wordsPerMinute m = Fin 90
          \<and> analyzeMetrics 65536 (Some sample_words) (Some (audio_duration (Some ''2'') (Some (Fin 5)))) = Inr m)"
proof -
  let ?e = "env_replying Undefined" and ?req = "audio_request ''2''"
  note main = audio_duration_source
  have pf: "parseFloat ''2'' = Fin 2" by code_simp
  have a: "audio_duration (Some ''2'') (Some (Fin 5)) = Fin 2"
    using main [of "Some ''2''" "''2''" "Some (Fin 5)"] pf by simp
  have b: "audio_duration None (Some (Fin 5)) = Fin 5"
    using main [of None _ "Some (Fin 5)" "Fin 5"] by (simp add: num_truthy_def)
  have c: "audio_duration (Some []) None = Fin 0"
    using main [of "Some []" _ None] by simp
  obtain form where form: "parseMultipartForm (content_type ?req) (raw_body ?req) = Inr form"
    by (simp add: parseMultipartForm_def boundary_of_def audio_request_def
        split_def split_from.simps starts_with_def)
  have "map_sum id (\<lambda>f. (form_files f ''audio'', form_fields f ''duration''))
          (parseMultipartForm (content_type ?req) (raw_body ?req))
        = Inr (Some \<lparr> filename = ''a.webm'', data = ''RIFF'' \<rparr>, Some ''2'')"
    by code_simp
  then have au: "form_files form ''audio'' = Some \<lparr> filename = ''a.webm'', data = ''RIFF'' \<rparr>"
    and du: "form_fields form ''duration'' = Some ''2''"
    by (simp_all add: form)
  have tr: "transcribe ?e \<lparr> filename = ''a.webm'', data = ''RIFF'' \<rparr> =
      Inr \<lparr> t_text = ''the quick brown'', t_words = Some sample_words, t_duration = Some (Fin 5) \<rparr>"
    by (simp add: env_replying_def)
  have "map_sum id (map_sum id (\<lambda>d. map_option wordsPerMinute (d_metrics d))) (prepare_audio ?e ?req)
        = Inr (Inr (Some (Fin 90)))"
    by code_simp
  then obtain d where d: "prepare_audio ?e ?req = Inr (Inr d)"
    and w: "map_option wordsPerMinute (d_metrics d) = Some (Fin 90)"
    by (cases "prepare_audio ?e ?req"; cases "projr (prepare_audio ?e ?req)") auto
  let ?u = "\<lparr> filename = ''a.webm'', data = ''RIFF'' \<rparr>"
  let ?tr = "\<lparr> t_text = ''the quick brown'', t_words = Some sample_words, t_duration = Some (Fin 5) \<rparr>"
  have "\<exists>m. d_metrics d = Some m
          \<and> analyzeMetrics (max_arguments ?e) (Some (case t_words ?tr of None \<Rightarrow> [] | Some ws \<Rightarrow> ws))
                (Some (audio_duration (form_fields form ''duration'') (t_duration ?tr))) = Inr m"
    using main [of _ _ _ _ ?req form ?u ?e ?tr d] form au tr d by blast
  then obtain m where "d_metrics d = Some m"
    and "analyzeMetrics 65536 (Some sample_words) (Some (audio_duration (Some ''2'') (Some (Fin 5)))) = Inr m"
    by (auto simp: du env_replying_def)
  with d w a b c show ?thesis by auto
qed

section \<open>Properties of the multipart decoder\<close>

lemma starts_with_Nil [simp]: "starts_with s []"
  by (simp add: starts_with_def)

lemma starts_with_Nil_left [simp]: "starts_with [] (p # ps) = False"
  by (simp add: starts_with_def)

lemma starts_with_Cons [simp]: "starts_with (c # cs) (p # ps) = (c = p \<and> starts_with cs ps)"
  by (auto simp: starts_with_def)

lemma starts_with_append_same [simp]: "starts_with (p @ s) p"
  by (simp add: starts_with_def)

lemma starts_with_iff: "starts_with s p \<longleftrightarrow> (\<exists>t. s = p @ t)"
  by (metis append_take_drop_id starts_with_append_same starts_with_def)

lemma starts_with_longer: "length p \<le> length s \<Longrightarrow> starts_with (s @ t) p = starts_with s p"
  by (simp add: starts_with_def)

lemma no_early_Cons:
  assumes "no_early D (x # X)"
  shows "\<not> starts_with (x # X @ D @ rest) D" and "no_early D X"
proof -
  have "\<not> starts_with ((x # X) @ D) D"
    using assms by (force simp: no_early_def)
  moreover have "length D \<le> length ((x # X) @ D)" by simp
  ultimately have "\<not> starts_with (((x # X) @ D) @ rest) D"
    using starts_with_longer by blast
  then show "\<not> starts_with (x # X @ D @ rest) D" by simp
  show "no_early D X"
    unfolding no_early_def
  proof (intro allI impI)
    fix j assume "j < length X"
    then have "Suc j < length (x # X)" by simp
    then have "\<not> starts_with (drop (Suc j) ((x # X) @ D)) D"
      using assms unfolding no_early_def by blast
    then show "\<not> starts_with (drop j (X @ D)) D" by simp
  qed
qed

lemma split_from_first:
  assumes "D \<noteq> []" and "no_early D X"
  shows "split_from D acc (X @ D @ rest) = (rev acc @ X) # split_from D [] rest"
  using assms(2)
proof (induction X arbitrary: acc)
  case Nil
  obtain c cs where D: "D = c # cs" using assms(1) by (cases D) auto
  have "split_from D acc (D @ rest) = rev acc # split_from D [] (drop (length D) (D @ rest))"
    using assms(1) by (simp add: D starts_with_def)
  then show ?case by simp
next
  case (Cons x X)
  note ne = no_early_Cons [OF Cons.prems]
  have "split_from D acc ((x # X) @ D @ rest) = split_from D (x # acc) (X @ D @ rest)"
    using ne(1) by simp
  also have "\<dots> = (rev (x # acc) @ X) # split_from D [] rest"
    by (rule Cons.IH [OF ne(2)])
  finally show ?case by simp
qed

lemma split_from_none:
  assumes "\<forall>j < length T. \<not> starts_with (drop j T) D"
  shows "split_from D acc T = [rev acc @ T]"
  using assms
proof (induction T arbitrary: acc)
  case Nil
  then show ?case by simp
next
  case (Cons x T)
  have "\<not> starts_with (x # T) D" using Cons.prems by force
  moreover have "\<forall>j < length T. \<not> starts_with (drop j T) D"
  proof (intro allI impI)
    fix j assume "j < length T"
    then have "Suc j < length (x # T)" by simp
    then have "\<not> starts_with (drop (Suc j) (x # T)) D" using Cons.prems by blast
    then show "\<not> starts_with (drop j T) D" by simp
  qed
  ultimately show ?case using Cons.IH [of "x # acc"] by simp
qed

lemma index_from_skip_free:
  "c \<notin> set n \<Longrightarrow> index_from (c # q) (n @ Y) i = index_from (c # q) Y (i + length n)"
  by (induction n arbitrary: i) auto

lemma last_index_from_end:
  "last_index_from crlf (X @ crlf) i = int (i + length X)"
proof (induction X arbitrary: i)
  case Nil
  show ?case by (simp add: crlf_def Let_def)
next
  case (Cons x X)
  show ?case by (simp add: Cons.IH Let_def)
qed

lemma takeWhile_quote_free:
  "dquote \<notin> set n \<Longrightarrow> takeWhile (\<lambda>x. x \<noteq> dquote) (n @ dquote # r) = n"
  by (induction n) auto

lemma field_piece_includes:
  "includes_str (piece (Field n v)) ''Content-Disposition''"
  by (simp add: piece_def part_headers_def includes_str_def indexOf_def crlf_def)

lemma field_piece_name:
  assumes "n \<noteq> []" and "dquote \<notin> set n"
  shows "match_param ''name'' (piece (Field n v)) = Some n"
  using assms
  by (simp add: piece_def part_headers_def crlf_def takeWhile_quote_free dquote_def [symmetric])

lemma starts_with_set: "starts_with s p \<Longrightarrow> set p \<subseteq> set s"
  by (auto simp: starts_with_iff)

lemma match_param_no_quote: "dquote \<notin> set t \<Longrightarrow> match_param key t = None"
proof (induction t)
  case Nil
  show ?case by simp
next
  case (Cons c cs)
  have "\<not> starts_with (c # cs) (key @ [CHR ''='', dquote])"
    using Cons.prems starts_with_set [of "c # cs" "key @ [CHR ''='', dquote]"] by auto
  then show ?case using Cons by (simp add: Let_def)
qed

lemma length_takeWhile_less:
  "x \<in> set xs \<Longrightarrow> length (takeWhile (\<lambda>y. y \<noteq> x) xs) < length xs"
  by (induction xs) auto

lemma takeWhile_no_quote: "dquote \<notin> set t \<Longrightarrow> takeWhile (\<lambda>x. x \<noteq> dquote) t = t"
  by (induction t) auto

lemma starts_with_tail_free:
  assumes "starts_with (s @ t) (k @ [q])" and "q \<notin> set t"
  shows "starts_with s (k @ [q])"
proof -
  obtain r where r: "s @ t = (k @ [q]) @ r" using assms(1) by (auto simp: starts_with_iff)
  have "length (k @ [q]) \<le> length s"
  proof (rule ccontr)
    assume "\<not> length (k @ [q]) \<le> length s"
    then have less: "length s \<le> length k" by simp
    have "(s @ t) ! length k = q" unfolding r by (simp add: nth_append)
    then have "t ! (length k - length s) = q" using less by (simp add: nth_append)
    moreover have "length k - length s < length t"
    proof -
      have "length (s @ t) = length ((k @ [q]) @ r)" using r by simp
      then show ?thesis using less by simp
    qed
    ultimately show False using assms(2) nth_mem by metis
  qed
  then show ?thesis using assms(1) starts_with_longer by blast
qed

lemma starts_with_appendI: "starts_with s p \<Longrightarrow> starts_with (s @ t) p"
  by (auto simp: starts_with_iff)

lemma match_param_unfold:
  "match_param key (c # cs) =
     (if starts_with (c # cs) (key @ [CHR ''='', dquote])
         \<and> takeWhile (\<lambda>x. x \<noteq> dquote) (drop (length key + 2) (c # cs)) \<noteq> []
         \<and> length (takeWhile (\<lambda>x. x \<noteq> dquote) (drop (length key + 2) (c # cs)))
             < length (drop (length key + 2) (c # cs))
      then Some (takeWhile (\<lambda>x. x \<noteq> dquote) (drop (length key + 2) (c # cs)))
      else match_param key cs)"
  by (simp add: Let_def)

lemma match_param_append_tail:
  assumes "dquote \<notin> set t"
  shows "match_param key v = None \<Longrightarrow> match_param key (v @ t) = None"
proof (induction v)
  case Nil
  then show ?case using assms by (simp add: match_param_no_quote)
next
  case (Cons c cs)
  let ?pre = "key @ [CHR ''='', dquote]"
  let ?k = "length key + 2"
  let ?rest = "drop ?k (c # cs)"
  let ?run = "takeWhile (\<lambda>x. x \<noteq> dquote) ?rest"
  have tl: "match_param key cs = None"
    using Cons.prems unfolding match_param_unfold by (metis option.distinct(1))
  have ih: "match_param key (cs @ t) = None"
    by (rule Cons.IH [OF tl])
  have fail: "\<not> (starts_with ((c # cs) @ t) ?pre
      \<and> takeWhile (\<lambda>x. x \<noteq> dquote) (drop ?k ((c # cs) @ t)) \<noteq> []
      \<and> length (takeWhile (\<lambda>x. x \<noteq> dquote) (drop ?k ((c # cs) @ t))) < length (drop ?k ((c # cs) @ t)))"
  proof
    assume a: "starts_with ((c # cs) @ t) ?pre
      \<and> takeWhile (\<lambda>x. x \<noteq> dquote) (drop ?k ((c # cs) @ t)) \<noteq> []
      \<and> length (takeWhile (\<lambda>x. x \<noteq> dquote) (drop ?k ((c # cs) @ t))) < length (drop ?k ((c # cs) @ t))"
    then have "starts_with ((c # cs) @ t) ((key @ [CHR ''='']) @ [dquote])" by simp
    then have "starts_with (c # cs) ((key @ [CHR ''='']) @ [dquote])"
      using assms by (rule starts_with_tail_free)
    then have sw: "starts_with (c # cs) ?pre" by simp
    then obtain u where u: "c # cs = ?pre @ u"
      unfolding starts_with_iff by blast
    have "length (c # cs) = length (?pre @ u)"
      by (simp only: u)
    then have le: "?k \<le> length (c # cs)"
      by simp
    have rest': "drop ?k ((c # cs) @ t) = ?rest @ t"
      using le by simp
    have none: "\<not> (?run \<noteq> [] \<and> length ?run < length ?rest)"
      using Cons.prems sw unfolding match_param_unfold by (metis option.distinct(1))
    from a have a2: "takeWhile (\<lambda>x. x \<noteq> dquote) (drop ?k ((c # cs) @ t)) \<noteq> []"
      and a3: "length (takeWhile (\<lambda>x. x \<noteq> dquote) (drop ?k ((c # cs) @ t))) < length (drop ?k ((c # cs) @ t))"
      by blast+
    show False
    proof (cases "dquote \<in> set ?rest")
      case True
      then have eq: "takeWhile (\<lambda>x. x \<noteq> dquote) (?rest @ t) = ?run"
        by (rule takeWhile_append1) simp
      have "length ?run < length ?rest"
        using True by (rule length_takeWhile_less)
      moreover have "?run \<noteq> []"
        using a2 unfolding rest' eq by simp
      ultimately show False using none by blast
    next
      case False
      then have "dquote \<notin> set (?rest @ t)" using assms by simp
      then have eq: "takeWhile (\<lambda>x. x \<noteq> dquote) (?rest @ t) = ?rest @ t"
        by (rule takeWhile_no_quote)
      have "length (?rest @ t) < length (?rest @ t)"
        using a3 unfolding rest' eq by simp
      then show False by simp
    qed
  qed
  have "match_param key ((c # cs) @ t) = match_param key (cs @ t)"
    using fail unfolding append_Cons match_param_unfold by (simp only: if_False append_Cons)
  then show ?case using ih by simp
qed

lemma first_quote_unique:
  assumes "x \<notin> set a" and "x \<notin> set b" and "a @ x # r = b @ x # t"
  shows "a = b"
proof -
  have "takeWhile (\<lambda>y. y \<noteq> x) (a @ x # r) = a" using assms(1) by (induction a) auto
  moreover have "takeWhile (\<lambda>y. y \<noteq> x) (b @ x # t) = b" using assms(2) by (induction b) auto
  ultimately show ?thesis using assms(3) by simp
qed

lemma ends_with_Cons: "ends_with cs p \<Longrightarrow> ends_with (c # cs) p"
  by (auto simp: ends_with_def Suc_diff_le)

lemma match_param_skip_name:
  assumes "dquote \<notin> set key"
  shows "dquote \<notin> set n \<Longrightarrow> \<not> ends_with n (key @ ''='') \<Longrightarrow>
         match_param key (n @ dquote # r) = match_param key (dquote # r)"
proof (induction n)
  case Nil
  show ?case by simp
next
  case (Cons c cs)
  let ?pre = "key @ [CHR ''='', dquote]"
  have nk: "dquote \<notin> set (key @ ''='')" using assms by (simp add: dquote_def)
  have ns: "\<not> starts_with (c # cs @ dquote # r) ?pre"
  proof
    assume "starts_with (c # cs @ dquote # r) ?pre"
    then obtain t where "c # cs @ dquote # r = ?pre @ t"
      unfolding starts_with_iff by blast
    then have eq: "(c # cs) @ dquote # r = (key @ ''='') @ dquote # t" by simp
    have "c # cs = key @ ''=''"
      by (rule first_quote_unique [OF Cons.prems(1) nk eq])
    then have "ends_with (c # cs) (key @ ''='')" by (simp add: ends_with_def)
    then show False using Cons.prems(2) by blast
  qed
  have "dquote \<notin> set cs" and "\<not> ends_with cs (key @ ''='')"
    using Cons.prems ends_with_Cons by auto
  then have ih: "match_param key (cs @ dquote # r) = match_param key (dquote # r)"
    by (rule Cons.IH)
  have "match_param key (c # cs @ dquote # r) = match_param key (cs @ dquote # r)"
    using ns unfolding match_param_unfold by (simp only: if_False simp_thms)
  then show ?case using ih by simp
qed

lemma dquote_neq [simp]:
  "dquote \<noteq> CHR ''f''" "dquote \<noteq> CHR ''n''" "dquote \<noteq> CHR ''C''" "dquote \<noteq> CHR 0x0D"
  "dquote \<noteq> CHR ''-''"
  by (simp_all add: dquote_def)

lemma field_piece_filename:
  assumes "dquote \<notin> set n" and "\<not> ends_with n ''filename=''"
    and "match_param ''filename'' v = None"
  shows "match_param ''filename'' (piece (Field n v)) = None"
proof -
  have k: "dquote \<notin> set ''filename''" by (simp add: dquote_def)
  have e: "\<not> ends_with n (''filename'' @ ''='')" using assms(2) by simp
  have t: "dquote \<notin> set crlf" by (simp add: dquote_def crlf_def)
  have skip: "match_param ''filename'' (n @ dquote # r) = match_param ''filename'' (dquote # r)" for r
    by (rule match_param_skip_name [OF k assms(1) e])
  have tail: "match_param ''filename'' (v @ crlf) = None"
    by (rule match_param_append_tail [OF t assms(3)])
  have "match_param ''filename'' (piece (Field n v)) = match_param ''filename'' (n @ dquote # crlf @ crlf @ v @ crlf)"
    by (simp add: piece_def part_headers_def part_content_def crlf_def)
  also have "\<dots> = match_param ''filename'' (dquote # crlf @ crlf @ v @ crlf)"
    by (rule skip)
  also have "\<dots> = match_param ''filename'' (v @ crlf)"
    by (simp add: crlf_def)
  finally show ?thesis using tail by simp
qed

lemma field_piece_start:
  assumes "CHR 0x0D \<notin> set n"
  shows "indexOf (piece (Field n v)) (crlf @ crlf) + 4 = int (length (crlf @ part_headers (Field n v) @ crlf @ crlf))"
  using assms
  by (simp add: piece_def part_headers_def part_content_def crlf_def indexOf_def index_from_skip_free)

lemma piece_end:
  "lastIndexOf (piece p) crlf = int (length (crlf @ part_headers p @ crlf @ crlf @ part_content p))"
proof -
  have "piece p = (crlf @ part_headers p @ crlf @ crlf @ part_content p) @ crlf"
    by (simp add: piece_def)
  then show ?thesis
    unfolding lastIndexOf_def by (simp only: last_index_from_end)
qed

lemma substring_ordered:
  "0 \<le> x \<Longrightarrow> x \<le> y \<Longrightarrow> y \<le> int (length s) \<Longrightarrow>
     substring s x y = take (nat (y - x)) (drop (nat x) s)"
  by (simp add: substring_def Let_def min_def max_def)

lemma substring_middle:
  "substring (a @ c @ b) (int (length a)) (int (length (a @ c))) = c"
  by (subst substring_ordered) simp_all

lemma piece_content:
  assumes "indexOf (piece p) (crlf @ crlf) + 4 = int (length (crlf @ part_headers p @ crlf @ crlf))"
  shows "substring (piece p) (indexOf (piece p) (crlf @ crlf) + 4) (lastIndexOf (piece p) crlf) = part_content p"
proof -
  let ?a = "crlf @ part_headers p @ crlf @ crlf"
  have p: "piece p = ?a @ part_content p @ crlf" by (simp add: piece_def)
  have e: "lastIndexOf (piece p) crlf = int (length (?a @ part_content p))"
    using piece_end [of p] by simp
  show ?thesis
    unfolding assms e unfolding p by (rule substring_middle)
qed

lemma file_piece_includes:
  "includes_str (piece (File n fn t d)) ''Content-Disposition''"
  by (simp add: piece_def part_headers_def includes_str_def indexOf_def crlf_def)

lemma file_piece_name:
  assumes "n \<noteq> []" and "dquote \<notin> set n"
  shows "match_param ''name'' (piece (File n fn t d)) = Some n"
  using assms
  by (simp add: piece_def part_headers_def crlf_def takeWhile_quote_free)

lemma file_piece_filename:
  assumes "dquote \<notin> set n" and "\<not> ends_with n ''filename=''"
    and "fn \<noteq> []" and "dquote \<notin> set fn"
  shows "match_param ''filename'' (piece (File n fn t d)) = Some fn"
proof -
  have k: "dquote \<notin> set ''filename''" by (simp add: dquote_def)
  have e: "\<not> ends_with n (''filename'' @ ''='')" using assms(2) by simp
  have skip: "match_param ''filename'' (n @ dquote # r) = match_param ''filename'' (dquote # r)" for r
    by (rule match_param_skip_name [OF k assms(1) e])
  let ?r = "''; filename='' @ dquote # fn @ dquote # crlf @ ''Content-Type: '' @ t @ crlf @ crlf @ d @ crlf"
  have "match_param ''filename'' (piece (File n fn t d)) = match_param ''filename'' (n @ dquote # ?r)"
    by (simp add: piece_def part_headers_def part_content_def crlf_def)
  also have "\<dots> = match_param ''filename'' (dquote # ?r)"
    by (rule skip)
  also have "\<dots> = Some fn"
    using assms(3,4) by (simp add: takeWhile_quote_free)
  finally show ?thesis .
qed

lemma file_piece_start:
  assumes "CHR 0x0D \<notin> set n" and "CHR 0x0D \<notin> set fn" and "CHR 0x0D \<notin> set t"
  shows "indexOf (piece (File n fn t d)) (crlf @ crlf) + 4
         = int (length (crlf @ part_headers (File n fn t d) @ crlf @ crlf))"
  using assms
  by (simp add: piece_def part_headers_def part_content_def crlf_def indexOf_def index_from_skip_free)

lemma process_part_piece:
  assumes "part_ok b p"
  shows "process_part r (piece p) = store_part r p"
proof (cases p)
  case (Field n v)
  from assms have n: "n \<noteq> []" "n \<noteq> ''__proto__''" "dquote \<notin> set n" "CHR 0x0D \<notin> set n"
      "\<not> ends_with n ''filename=''" and v: "match_param ''filename'' v = None"
    by (simp_all add: part_ok_def name_ok_def Field)
  have c: "substring (piece p) (indexOf (piece p) (crlf @ crlf) + 4) (lastIndexOf (piece p) crlf) = v"
    using piece_content [of p] field_piece_start [OF n(4), of v] by (simp add: Field part_content_def)
  show ?thesis
    using c n(2)
    by (simp add: process_part_def Field field_piece_includes field_piece_name [OF n(1) n(3)]
        field_piece_filename [OF n(3) n(5) v] store_part_def set_prop_def Let_def)
next
  case (File n fn t d)
  from assms have n: "n \<noteq> []" "n \<noteq> ''__proto__''" "dquote \<notin> set n" "CHR 0x0D \<notin> set n"
      "\<not> ends_with n ''filename=''" and f: "fn \<noteq> []" "dquote \<notin> set fn" "CHR 0x0D \<notin> set fn"
      and t: "CHR 0x0D \<notin> set t"
    by (simp_all add: part_ok_def name_ok_def File)
  have c: "substring (piece p) (indexOf (piece p) (crlf @ crlf) + 4) (lastIndexOf (piece p) crlf) = d"
    using piece_content [of p] file_piece_start [OF n(4) f(3) t, of d] by (simp add: File part_content_def)
  show ?thesis
    using c n(2)
    by (simp add: process_part_def File file_piece_includes file_piece_name [OF n(1) n(3)]
        file_piece_filename [OF n(3) n(5) f(1) f(2)] store_part_def set_prop_def Let_def)
qed

lemma index_from_found:
  "j \<le> length s \<Longrightarrow> starts_with (drop j s) p \<Longrightarrow> index_from p s i \<noteq> - 1"
proof (induction s arbitrary: i j)
  case Nil
  then show ?case by (cases p) auto
next
  case (Cons c cs)
  show ?case
  proof (cases "starts_with (c # cs) p")
    case True
    then show ?thesis by simp
  next
    case False
    then obtain j' where j: "j = Suc j'" using Cons.prems(2) by (cases j) auto
    then have "index_from p cs (i + 1) \<noteq> - 1"
      using Cons.IH [of j' "i + 1"] Cons.prems by simp
    then show ?thesis using False by simp
  qed
qed

lemma not_includes_no_occurrence:
  "\<not> includes_str s p \<Longrightarrow> j \<le> length s \<Longrightarrow> \<not> starts_with (drop j s) p"
  using index_from_found [of j s p 0] by (auto simp: includes_str_def indexOf_def)

lemma starts_with_nth: "starts_with s p \<Longrightarrow> k < length p \<Longrightarrow> s ! k = p ! k"
  by (auto simp: starts_with_iff nth_append)

lemma no_early_piece:
  assumes "\<not> includes_str (Y @ [l]) D" and "l \<notin> set D"
  shows "no_early D (Y @ [l])"
  unfolding no_early_def
proof (intro allI impI notI)
  let ?X = "Y @ [l]"
  fix j assume j: "j < length ?X" and sw: "starts_with (drop j (?X @ D)) D"
  show False
  proof (cases "j + length D \<le> length ?X")
    case True
    then have "length D \<le> length (drop j ?X)" by simp
    moreover have "drop j (?X @ D) = drop j ?X @ D" using j by simp
    ultimately have "starts_with (drop j ?X) D"
      using sw starts_with_longer [of D "drop j ?X" D] by simp
    then show False
      using not_includes_no_occurrence [OF assms(1), of j] j by simp
  next
    case False
    let ?k = "length Y - j"
    have k: "?k < length D" using False j by simp
    have "drop j (?X @ D) ! ?k = D ! ?k"
      by (rule starts_with_nth [OF sw k])
    moreover have "drop j (?X @ D) ! ?k = l"
      using j by (simp add: nth_append)
    ultimately have "D ! ?k = l" by simp
    then show False using assms(2) k nth_mem by metis
  qed
qed

lemma piece_snoc: "piece p = (crlf @ part_headers p @ crlf @ crlf @ part_content p @ [CHR 0x0D]) @ [CHR 0x0A]"
  by (simp add: piece_def crlf_def)

lemma no_early_part:
  assumes "boundary_ok b" and "part_ok b p"
  shows "no_early (''--'' @ b) (piece p)"
proof -
  have "CHR 0x0A \<notin> set (''--'' @ b)" using assms(1) by (simp add: boundary_ok_def)
  moreover have "\<not> includes_str (piece p) (''--'' @ b)" using assms(2) by (simp add: part_ok_def)
  ultimately show ?thesis
    unfolding piece_snoc by (intro no_early_piece) simp_all
qed

lemma closing_has_no_delimiter:
  assumes "boundary_ok b"
  shows "\<forall>j < length (''--'' @ crlf). \<not> starts_with (drop j (''--'' @ crlf)) (''--'' @ b)"
proof -
  obtain c cs where b: "b = c # cs" and c: "c \<noteq> CHR 0x0D"
    using assms by (cases b) (auto simp: boundary_ok_def)
  have "\<not> starts_with (drop j (''--'' @ crlf)) (''--'' @ b)" if "j < 4" for j
  proof -
    from that consider "j = 0" | "j = 1" | "j = 2" | "j = 3" by linarith
    then show ?thesis
      using c by cases (simp_all add: b crlf_def)
  qed
  then show ?thesis by (simp add: crlf_def)
qed

lemma split_pieces:
  assumes "D \<noteq> []" and "\<forall>X \<in> set Xs. no_early D X" and "\<forall>j < length T. \<not> starts_with (drop j T) D"
  shows "split_from D [] (concat (map (\<lambda>X. X @ D) Xs) @ T) = Xs @ [T]"
  using assms(2)
proof (induction Xs)
  case Nil
  show ?case using split_from_none [OF assms(3), of "[]"] by simp
next
  case (Cons X Xs)
  have "split_from D [] (X @ D @ concat (map (\<lambda>X. X @ D) Xs) @ T)
        = (rev [] @ X) # split_from D [] (concat (map (\<lambda>X. X @ D) Xs) @ T)"
    using Cons.prems by (intro split_from_first [OF assms(1)]) simp
  then show ?case using Cons by simp
qed

lemma encode_as_pieces:
  "encode_multipart b ps
   = (''--'' @ b) @ concat (map (\<lambda>X. X @ ''--'' @ b) (map piece ps)) @ ''--'' @ crlf"
proof -
  have "concat (map (encode_part b) ps) @ ''--'' @ b
        = (''--'' @ b) @ concat (map (\<lambda>X. X @ ''--'' @ b) (map piece ps))"
    by (induction ps) (simp_all add: encode_part_def piece_def)
  then show ?thesis by (simp add: encode_multipart_def)
qed

lemma split_body:
  assumes "boundary_ok b" and "\<forall>p \<in> set ps. part_ok b p"
  shows "split (encode_multipart b ps) (''--'' @ b) = [] # map piece ps @ [''--'' @ crlf]"
proof -
  let ?D = "''--'' @ b"
  have D: "?D \<noteq> []" by simp
  have ne: "\<forall>X \<in> set (map piece ps). no_early ?D X"
    using assms no_early_part by auto
  have "split_from ?D [] (?D @ concat (map (\<lambda>X. X @ ?D) (map piece ps)) @ ''--'' @ crlf)
        = (rev [] @ []) # split_from ?D [] (concat (map (\<lambda>X. X @ ?D) (map piece ps)) @ ''--'' @ crlf)"
    using split_from_first [OF D, of "[]" "[]"] by (simp add: no_early_def)
  also have "split_from ?D [] (concat (map (\<lambda>X. X @ ?D) (map piece ps)) @ ''--'' @ crlf)
        = map piece ps @ [''--'' @ crlf]"
    by (rule split_pieces [OF D ne closing_has_no_delimiter [OF assms(1)]])
  finally show ?thesis
    unfolding split_def encode_as_pieces by simp
qed

lemma boundary_of_header:
  assumes "boundary_ok b"
  shows "boundary_of (Some (multipart_header b)) = Some b"
proof -
  have b: "b \<noteq> []" and nb: "\<not> includes_str b ''boundary=''"
    using assms by (simp_all add: boundary_ok_def)
  have none: "\<forall>j < length b. \<not> starts_with (drop j b) ''boundary=''"
    using not_includes_no_occurrence [OF nb] by simp
  have "split_from ''boundary='' [] (''multipart/form-data; '' @ ''boundary='' @ b)
        = (rev [] @ ''multipart/form-data; '') # split_from ''boundary='' [] b"
    by (rule split_from_first) (simp_all add: no_early_def less_Suc_eq)
  then have "split (multipart_header b) ''boundary='' = [''multipart/form-data; '', b]"
    using split_from_none [OF none, of "[]"] by (simp add: split_def multipart_header_def)
  then show ?thesis using b by (simp add: boundary_of_def)
qed

lemma process_part_empty: "process_part r [] = r"
  by (simp add: process_part_def includes_str_def indexOf_def)

lemma process_part_closing: "process_part r (''--'' @ crlf) = r"
  by (simp add: process_part_def includes_str_def indexOf_def crlf_def)

lemma foldl_process_pieces:
  "\<forall>p \<in> set ps. part_ok b p \<Longrightarrow> foldl process_part r (map piece ps) = foldl store_part r ps"
  by (induction ps arbitrary: r) (simp_all add: process_part_piece [of b])

lemma store_part_other:
  "part_name p \<noteq> n \<Longrightarrow> form_fields (store_part r p) n = form_fields r n"
  "part_name p \<noteq> n \<Longrightarrow> form_files (store_part r p) n = form_files r n"
  by (cases p; simp add: store_part_def part_name_def)+

lemma store_part_same:
  "form_fields (store_part r (Field n v)) n = Some v"
  "form_files (store_part r (File n fn t d)) n = Some \<lparr> filename = fn, data = d \<rparr>"
  by (simp_all add: store_part_def)

lemma decoded_field_aux:
  "Field n v \<in> set ps \<Longrightarrow> (\<forall>q \<in> set ps. part_name q = n \<longrightarrow> q = Field n v) \<Longrightarrow>
     form_fields (foldl store_part r ps) n = Some v"
proof (induction ps rule: rev_induct)
  case Nil
  then show ?case by simp
next
  case (snoc p ps)
  have step: "foldl store_part r (ps @ [p]) = store_part (foldl store_part r ps) p" by simp
  show ?case
  proof (cases "p = Field n v")
    case True
    show ?thesis by (simp only: True foldl_append foldl_Cons foldl_Nil store_part_same(1))
  next
    case False
    have pm: "p \<in> set (ps @ [p])" by simp
    have "part_name p = n \<longrightarrow> p = Field n v" by (rule bspec [OF snoc.prems(2) pm])
    then have ne: "part_name p \<noteq> n" using False by blast
    have mem: "Field n v \<in> set ps" using snoc.prems(1) False by simp
    have uniq: "\<forall>q \<in> set ps. part_name q = n \<longrightarrow> q = Field n v" using snoc.prems(2) by simp
    show ?thesis
      unfolding step store_part_other(1) [OF ne] by (rule snoc.IH [OF mem uniq])
  qed
qed

lemma decoded_file_aux:
  "File n fn t d \<in> set ps \<Longrightarrow> (\<forall>q \<in> set ps. part_name q = n \<longrightarrow> q = File n fn t d) \<Longrightarrow>
     form_files (foldl store_part r ps) n = Some \<lparr> filename = fn, data = d \<rparr>"
proof (induction ps rule: rev_induct)
  case Nil
  then show ?case by simp
next
  case (snoc p ps)
  have step: "foldl store_part r (ps @ [p]) = store_part (foldl store_part r ps) p" by simp
  show ?case
  proof (cases "p = File n fn t d")
    case True
    show ?thesis by (simp only: True foldl_append foldl_Cons foldl_Nil store_part_same(2))
  next
    case False
    have pm: "p \<in> set (ps @ [p])" by simp
    have "part_name p = n \<longrightarrow> p = File n fn t d" by (rule bspec [OF snoc.prems(2) pm])
    then have ne: "part_name p \<noteq> n" using False by blast
    have mem: "File n fn t d \<in> set ps" using snoc.prems(1) False by simp
    have uniq: "\<forall>q \<in> set ps. part_name q = n \<longrightarrow> q = File n fn t d" using snoc.prems(2) by simp
    show ?thesis
      unfolding step store_part_other(2) [OF ne] by (rule snoc.IH [OF mem uniq])
  qed
qed

text \<open>
  C9, as amended. For a boundary and parts as described by \<open>boundary_ok\<close> and \<open>part_ok\<close>,
  decoding the encoded body gives exactly the form that holds every part under its name:
  a field whose name no other part has is returned with its value, a file whose name no
  other part has with its file name and its content, byte for byte.
\<close>

theorem multipart_round_trip:
  assumes "boundary_ok b" and "\<forall>p \<in> set ps. part_ok b p"
  shows "parseMultipartForm (Some (multipart_header b)) (encode_multipart b ps) = Inr (decoded ps)
       \<and> (\<forall>n v. Field n v \<in> set ps \<and> (\<forall>q \<in> set ps. part_name q = n \<longrightarrow> q = Field n v)
             \<longrightarrow> form_fields (decoded ps) n = Some v)
       \<and> (\<forall>n fname ctype bytes.
             File n fname ctype bytes \<in> set ps
             \<and> (\<forall>q \<in> set ps. part_name q = n \<longrightarrow> q = File n fname ctype bytes)
             \<longrightarrow> form_files (decoded ps) n = Some \<lparr> filename = fname, data = bytes \<rparr>)"
proof (intro conjI allI impI)
  let ?init = "\<lparr> form_fields = Map.empty, form_files = Map.empty \<rparr>"
  have sp: "split (encode_multipart b ps) (''--'' @ b) = [] # map piece ps @ [''--'' @ crlf]"
    by (rule split_body [OF assms])
  have bd: "boundary_of (Some (multipart_header b)) = Some b"
    by (rule boundary_of_header [OF assms(1)])
  have "foldl process_part ?init ([] # map piece ps @ [''--'' @ crlf])
        = process_part (foldl process_part (process_part ?init []) (map piece ps)) (''--'' @ crlf)"
    by (simp only: foldl_Cons foldl_append foldl_Nil)
  also have "\<dots> = foldl process_part ?init (map piece ps)"
    by (simp only: process_part_empty process_part_closing)
  also have "\<dots> = decoded ps"
    unfolding decoded_def by (rule foldl_process_pieces [OF assms(2)])
  finally have fold: "foldl process_part ?init ([] # map piece ps @ [''--'' @ crlf]) = decoded ps" .
  have "parseMultipartForm (Some (multipart_header b)) (encode_multipart b ps)
        = Inr (foldl process_part ?init (split (encode_multipart b ps) (''--'' @ b)))"
    by (simp only: parseMultipartForm_def bd option.case)
  then show "parseMultipartForm (Some (multipart_header b)) (encode_multipart b ps) = Inr (decoded ps)"
    by (simp only: sp fold)
next
  fix n v
  assume "Field n v \<in> set ps \<and> (\<forall>q \<in> set ps. part_name q = n \<longrightarrow> q = Field n v)"
  then show "form_fields (decoded ps) n = Some v"
    unfolding decoded_def using decoded_field_aux by blast
next
  fix n fname ctype bytes
  assume "File n fname ctype bytes \<in> set ps
          \<and> (\<forall>q \<in> set ps. part_name q = n \<longrightarrow> q = File n fname ctype bytes)"
  then show "form_files (decoded ps) n = Some \<lparr> filename = fname, data = bytes \<rparr>"
    unfolding decoded_def using decoded_file_aux by blast
qed

text \<open>
  C9 as stated fails: the field \<open>question\<close> with the value \<open>say filename="x"\<close> is decoded as
  a file named \<open>x\<close>, and the decoded form has no field \<open>question\<close>.
\<close>

theorem field_with_filename_text_decoded_as_file:
  "map_sum id (\<lambda>f. (form_fields f ''question'', form_files f ''question''))
     (parseMultipartForm (Some (multipart_header ''XyZ'')) (encode_multipart ''XyZ'' quoting_parts))
   = Inr (None, Some \<lparr> filename = ''x'', data = ''say filename='' @ [dquote] @ ''x'' @ [dquote] \<rparr>)"
  by code_simp

text \<open>The sample parts: the file content and the field come back unchanged.\<close>

theorem multipart_round_trip_witness:
  "parseMultipartForm (Some (multipart_header ''XyZ'')) (encode_multipart ''XyZ'' sample_parts)
     = Inr (decoded sample_parts)
   \<and> form_fields (decoded sample_parts) ''duration'' = Some ''2''
   \<and> form_files (decoded sample_parts) ''audio''
       = Some \<lparr> filename = ''a.webm'', data = [CHR 0xFF, CHR 0x00, CHR 0x80, CHR 0x0D, CHR 0x0A, CHR 0x22] \<rparr>"
proof -
  have b: "boundary_ok ''XyZ''" by code_simp
  have "list_all (part_ok ''XyZ'') sample_parts" by code_simp
  then have p: "\<forall>p \<in> set sample_parts. part_ok ''XyZ'' p" by (simp add: list_all_iff)
  note main = multipart_round_trip [OF b p]
  have f: "Field ''duration'' ''2'' \<in> set sample_parts
           \<and> (\<forall>q \<in> set sample_parts. part_name q = ''duration'' \<longrightarrow> q = Field ''duration'' ''2'')"
    by (simp add: sample_parts_def part_name_def)
  let ?bytes = "[CHR 0xFF, CHR 0x00, CHR 0x80, CHR 0x0D, CHR 0x0A, CHR 0x22]"
  have a: "File ''audio'' ''a.webm'' ''audio/webm'' ?bytes \<in> set sample_parts
           \<and> (\<forall>q \<in> set sample_parts. part_name q = ''audio'' \<longrightarrow> q = File ''audio'' ''a.webm'' ''audio/webm'' ?bytes)"
    by (simp add: sample_parts_def part_name_def)
  have "form_fields (decoded sample_parts) ''duration'' = Some ''2''"
    using main [THEN conjunct2, THEN conjunct1, THEN spec, THEN spec, THEN mp, OF f] .
  moreover have "form_files (decoded sample_parts) ''audio''
       = Some \<lparr> filename = ''a.webm'', data = ?bytes \<rparr>"
    using main [THEN conjunct2, THEN conjunct2, THEN spec, THEN spec, THEN spec, THEN spec, THEN mp, OF a] .
  ultimately show ?thesis using main [THEN conjunct1] by (intro conjI)
qed

end
